theory Spec2Isabelle
  imports Complex_Main "HOL-Library.Word"
begin

section \<open>Data model of the ws2811 web emulator\<close>

text \<open>
  Go's \<^verbatim>\<open>int\<close> fields are integers (\<^typ>\<open>int\<close>); where the code does arithmetic on
  them the 64-bit wrap-around is written out. A \<^verbatim>\<open>uint32\<close> is a 32-bit word, a
  \<^verbatim>\<open>byte\<close> an 8-bit word. A slice is \<open>None\<close> when it is \<^verbatim>\<open>nil\<close> and
  \<open>Some xs\<close> otherwise; a pointer is \<open>None\<close> when it is \<^verbatim>\<open>nil\<close>.
\<close>

type_synonym byte = "8 word"
type_synonym uint32 = "32 word"
type_synonym addr = nat

text \<open>
  \<^verbatim>\<open>ChannelOption\<close> and \<^verbatim>\<open>Option\<close>. The type parameter is the representation of the
  slice field: an address of a backing array in the store, or the array's contents once the
  slice has been read through.
\<close>

record 'g ChannelOption =
  LedCount :: int
  StripeType :: int
  Brightness :: int
  WShift :: int
  RShift :: int
  GShift :: int
  BShift :: int
  Gamma :: 'g

record 'c Option =
  RenderWaitTime :: int
  Frequency :: int
  Channels :: 'c

type_synonym ChannelOptionRef = "addr option ChannelOption"
type_synonym OptionRef = "addr option Option"
type_synonym ChannelOptionVal = "byte list option ChannelOption"
type_synonym OptionVal = "ChannelOptionVal list option Option"

text \<open>
  The store: \<^verbatim>\<open>Option\<close> structs, \<^verbatim>\<open>[]ChannelOption\<close> backing arrays and \<^verbatim>\<open>[]byte\<close>
  backing arrays, by address. Addresses below \<open>nextAddr\<close> are allocated.
\<close>

record Heap =
  optionObjs :: "addr \<Rightarrow> OptionRef"
  channelArrs :: "addr \<Rightarrow> ChannelOptionRef list"
  byteArrs :: "addr \<Rightarrow> byte list"
  nextAddr :: addr

text \<open>
  Modelled from the spec: the \<^verbatim>\<open>Hub\<close> struct is declared in a file that is not among the
  sources; the code only uses its \<^verbatim>\<open>broadcast\<close> channel (the hub's fan-out entry point).
  The channel is the sequence of messages handed to it, oldest first.
\<close>

record Hub =
  broadcast :: "string list"

text \<open>
  \<^verbatim>\<open>time.Time\<close> and \<^verbatim>\<open>time.Duration\<close> in nanoseconds; the zero \<^verbatim>\<open>Time\<close> is 0. A
  \<^verbatim>\<open>Duration\<close> is a 64-bit count; the range of \<^verbatim>\<open>Time\<close>, of some hundred billion years,
  is not bounded here, so \<^verbatim>\<open>t.Add(d)\<close> is \<open>t + d\<close>.
\<close>

type_synonym Time = int
type_synonym Duration = int

record WS2811 =
  initialized :: bool
  options :: "addr option"
  leds :: "uint32 list option list"
  hub :: "Hub option"
  lastRender :: Time

datatype panic = IndexOutOfRange | MakeSliceLenOutOfRange | NilDereference

datatype error = DeviceAlreadyInitialized | TooManyLEDs | ErrorSettingLEDs error

text \<open>
  A method either panics, or returns with the device as it left it and the \<^verbatim>\<open>error\<close> it
  returned (\<open>None\<close> for \<^verbatim>\<open>nil\<close>).
\<close>

type_synonym result = "panic + (WS2811 \<times> error option)"

section \<open>Reading the configuration through the pointer\<close>

definition derefBytes :: "Heap \<Rightarrow> addr option \<Rightarrow> byte list option" where
  "derefBytes h g = map_option (byteArrs h) g"

definition derefChannel :: "Heap \<Rightarrow> ChannelOptionRef \<Rightarrow> ChannelOptionVal" where
  "derefChannel h c =
     \<lparr>LedCount = LedCount c, StripeType = StripeType c, Brightness = Brightness c,
      WShift = WShift c, RShift = RShift c, GShift = GShift c, BShift = BShift c,
      Gamma = derefBytes h (Gamma c)\<rparr>"

definition derefChannels :: "Heap \<Rightarrow> addr option \<Rightarrow> ChannelOptionVal list option" where
  "derefChannels h s = map_option (\<lambda>a. map (derefChannel h) (channelArrs h a)) s"

definition derefOption :: "Heap \<Rightarrow> addr option \<Rightarrow> OptionVal option" where
  "derefOption h p =
     map_option (\<lambda>a. let ob = optionObjs h a in
        \<lparr>RenderWaitTime = RenderWaitTime ob, Frequency = Frequency ob,
         Channels = derefChannels h (Channels ob)\<rparr>) p"

text \<open>\<^verbatim>\<open>len\<close> and indexing of a slice; a \<^verbatim>\<open>nil\<close> slice has length 0.\<close>

definition elems :: "'a list option \<Rightarrow> 'a list" where
  "elems s = (case s of None \<Rightarrow> [] | Some xs \<Rightarrow> xs)"

definition index :: "'a list \<Rightarrow> int \<Rightarrow> panic + 'a" where
  "index xs i = (if 0 \<le> i \<and> i < int (length xs) then Inr (xs ! nat i) else Inl IndexOutOfRange)"

section \<open>Construction: \<^verbatim>\<open>MakeWS2811\<close> and the deep copy\<close>

text \<open>
  \<^verbatim>\<open>deepcopy.Copy\<close> (github.com/mohae/deepcopy, a dependency) on a \<^verbatim>\<open>*Option\<close>: a
  \<^verbatim>\<open>nil\<close> pointer or slice stays \<^verbatim>\<open>nil\<close>; otherwise a new struct or a new backing array
  of the same length is allocated and filled by copying the fields and elements
  recursively. \<^verbatim>\<open>MakeWS2811\<close> returns the new device; the \<^verbatim>\<open>error\<close> it returns is never
  assigned and always \<^verbatim>\<open>nil\<close>.
\<close>

definition copyBytes :: "Heap \<Rightarrow> addr option \<Rightarrow> Heap \<times> addr option" where
  "copyBytes h g =
     (case g of
        None \<Rightarrow> (h, None)
      | Some a \<Rightarrow>
          let b = nextAddr h
          in (h\<lparr>byteArrs := (byteArrs h)(b := byteArrs h a), nextAddr := Suc b\<rparr>, Some b))"

definition copyChannel :: "Heap \<Rightarrow> ChannelOptionRef \<Rightarrow> Heap \<times> ChannelOptionRef" where
  "copyChannel h c = (let (h', g) = copyBytes h (Gamma c) in (h', c\<lparr>Gamma := g\<rparr>))"

fun copyChannelList :: "Heap \<Rightarrow> ChannelOptionRef list \<Rightarrow> Heap \<times> ChannelOptionRef list" where
  "copyChannelList h [] = (h, [])"
| "copyChannelList h (c # cs) =
     (let (h1, c') = copyChannel h c; (h2, cs') = copyChannelList h1 cs in (h2, c' # cs'))"

definition copyChannels :: "Heap \<Rightarrow> addr option \<Rightarrow> Heap \<times> addr option" where
  "copyChannels h s =
     (case s of
        None \<Rightarrow> (h, None)
      | Some a \<Rightarrow>
          let b = nextAddr h;
              (h', cs) = copyChannelList (h\<lparr>nextAddr := Suc b\<rparr>) (channelArrs h a)
          in (h'\<lparr>channelArrs := (channelArrs h')(b := cs)\<rparr>, Some b))"

definition copyOption :: "Heap \<Rightarrow> addr option \<Rightarrow> Heap \<times> addr option" where
  "copyOption h p =
     (case p of
        None \<Rightarrow> (h, None)
      | Some a \<Rightarrow>
          let b = nextAddr h;
              (h', s) = copyChannels (h\<lparr>nextAddr := Suc b\<rparr>) (Channels (optionObjs h a))
          in (h'\<lparr>optionObjs := (optionObjs h')(b := (optionObjs h a)\<lparr>Channels := s\<rparr>)\<rparr>, Some b))"

definition MakeWS2811 :: "Heap \<Rightarrow> addr option \<Rightarrow> Hub option \<Rightarrow> Heap \<times> WS2811" where
  "MakeWS2811 h opt hb =
     (let (h', p) = copyOption h opt
      in (h', \<lparr>initialized = False, options = p, leds = [], hub = hb, lastRender = 0\<rparr>))"

section \<open>\<^verbatim>\<open>Init\<close>, \<^verbatim>\<open>Fini\<close> and \<^verbatim>\<open>Leds\<close>\<close>

definition RpiPwmChannels :: nat where
  "RpiPwmChannels = 2"

text \<open>
  \<^verbatim>\<open>make([]uint32, n)\<close> panics ("makeslice: len out of range") on a negative length and
  when the \<open>4 * n\<close> bytes of the elements exceed the allocator's limit \<^verbatim>\<open>maxAlloc\<close>, which
  is \<open>2\<^sup>4\<^sup>8\<close> bytes on the 64-bit platforms; otherwise it is \<open>n\<close> zeros (memory is taken to
  suffice below that limit).
\<close>

definition maxAlloc :: int where
  "maxAlloc = 2 ^ 48"

definition makeable :: "int \<Rightarrow> bool" where
  "makeable n \<longleftrightarrow> 0 \<le> n \<and> 4 * n \<le> maxAlloc"

definition make_uint32 :: "int \<Rightarrow> panic + uint32 list" where
  "make_uint32 n =
     (if makeable n then Inr (replicate (nat n) 0) else Inl MakeSliceLenOutOfRange)"

text \<open>
  The loop of \<^verbatim>\<open>Init\<close>, from index \<open>i\<close> over the channels not yet visited: the right-hand
  side \<^verbatim>\<open>make(...)\<close> is evaluated before the store into \<^verbatim>\<open>ws2811.leds[i]\<close> is checked.
\<close>

fun init_loop :: "nat \<Rightarrow> ChannelOptionVal list \<Rightarrow> uint32 list option list
    \<Rightarrow> panic + uint32 list option list" where
  "init_loop i [] ls = Inr ls"
| "init_loop i (c # cs) ls =
     (case make_uint32 (LedCount c) of
        Inl p \<Rightarrow> Inl p
      | Inr buf \<Rightarrow>
          if i < length ls then init_loop (Suc i) cs (ls[i := Some buf])
          else Inl IndexOutOfRange)"

definition Init :: "Heap \<Rightarrow> WS2811 \<Rightarrow> result" where
  "Init h ws =
     (if initialized ws then Inr (ws, Some DeviceAlreadyInitialized)
      else
        case derefOption h (options ws) of
          None \<Rightarrow> Inl NilDereference
        | Some opt \<Rightarrow>
            (case init_loop 0 (elems (Channels opt)) (replicate RpiPwmChannels None) of
               Inl p \<Rightarrow> Inl p
             | Inr ls \<Rightarrow> Inr (ws\<lparr>leds := ls\<rparr>, None)))"

definition Fini :: "WS2811 \<Rightarrow> WS2811" where
  "Fini ws = ws\<lparr>initialized := False\<rparr>"

definition Leds :: "WS2811 \<Rightarrow> int \<Rightarrow> panic + uint32 list option" where
  "Leds ws channel = index (leds ws) channel"

section \<open>The \<^verbatim>\<open>float64\<close> arithmetic of \<^verbatim>\<open>Wait\<close>\<close>

text \<open>
  A \<^verbatim>\<open>float64\<close> is a rational that binary64 represents, an infinity or NaN. Every
  operation is the exact one followed by rounding to nearest, ties to even, with 53
  significant bits and the least exponent \<open>-1074\<close>. The sign of a zero is not kept: the
  only zero divisor below is \<^verbatim>\<open>float64(0)\<close>, which is \<open>+0\<close>.
\<close>

datatype float64 = Finite rat | PosInf | NegInf | NaN

text \<open>
  \<open>bitlen n\<close> is the number of binary digits of \<open>n\<close>, and \<open>ilog2 x\<close> the \<open>k\<close> with
  \<open>2 powi k \<le> x < 2 powi (k + 1)\<close>, for \<open>0 < x\<close>.
\<close>

function bitlen :: "int \<Rightarrow> int" where
  "bitlen n = (if n \<le> 0 then 0 else 1 + bitlen (n div 2))"
  by pat_completeness auto
termination
  by (relation "measure nat") auto

declare bitlen.simps [simp del]

definition ilog2 :: "rat \<Rightarrow> int" where
  "ilog2 x =
     (let (p, q) = quotient_of x;
          k = bitlen p - bitlen q
      in if 2 powi k \<le> x then k else k - 1)"

definition round_half_even :: "rat \<Rightarrow> int" where
  "round_half_even y =
     (let f = \<lfloor>y\<rfloor>; d = y - of_int f
      in if d < 1 / 2 then f else if 1 / 2 < d then f + 1 else if even f then f else f + 1)"

definition round64 :: "rat \<Rightarrow> float64" where
  "round64 x =
     (if x = 0 then Finite 0
      else
        let e = max (ilog2 \<bar>x\<bar> - 52) (- 1074);
            y = of_int (round_half_even (\<bar>x\<bar> / 2 powi e)) * 2 powi e
        in if 2 ^ 1024 \<le> y then (if 0 < x then PosInf else NegInf)
           else Finite (sgn x * y))"

fun f64_add :: "float64 \<Rightarrow> float64 \<Rightarrow> float64" where
  "f64_add (Finite a) (Finite b) = round64 (a + b)"
| "f64_add NaN _ = NaN"
| "f64_add _ NaN = NaN"
| "f64_add PosInf NegInf = NaN"
| "f64_add NegInf PosInf = NaN"
| "f64_add PosInf _ = PosInf"
| "f64_add _ PosInf = PosInf"
| "f64_add NegInf _ = NegInf"
| "f64_add _ NegInf = NegInf"

definition f64_sign :: "float64 \<Rightarrow> int" where
  "f64_sign v = (case v of Finite a \<Rightarrow> (if a < 0 then - 1 else if a = 0 then 0 else 1)
                 | PosInf \<Rightarrow> 1 | NegInf \<Rightarrow> - 1 | NaN \<Rightarrow> 0)"

definition f64_inf :: "int \<Rightarrow> float64" where
  "f64_inf s = (if s < 0 then NegInf else if s = 0 then NaN else PosInf)"

fun f64_mul :: "float64 \<Rightarrow> float64 \<Rightarrow> float64" where
  "f64_mul (Finite a) (Finite b) = round64 (a * b)"
| "f64_mul NaN _ = NaN"
| "f64_mul _ NaN = NaN"
| "f64_mul v w = f64_inf (f64_sign v * f64_sign w)"

fun f64_div :: "float64 \<Rightarrow> float64 \<Rightarrow> float64" where
  "f64_div (Finite a) (Finite b) =
     (if b = 0 then f64_inf (f64_sign (Finite a)) else round64 (a / b))"
| "f64_div NaN _ = NaN"
| "f64_div _ NaN = NaN"
| "f64_div (Finite a) _ = Finite 0"
| "f64_div v (Finite b) = f64_inf (f64_sign v * (if b < 0 then - 1 else 1))"
| "f64_div _ _ = NaN"

text \<open>Go's \<^verbatim>\<open>int\<close> is taken to be 64 bits wide: \<open>int64\<close> wraps an integer into its range.\<close>

definition int64 :: "int \<Rightarrow> int" where
  "int64 x = (x + 2 ^ 63) mod 2 ^ 64 - 2 ^ 63"

definition float64_of_int :: "int \<Rightarrow> float64" where
  "float64_of_int i = round64 (of_int i)"

text \<open>
  The conversion \<^verbatim>\<open>time.Duration(f)\<close> truncates towards zero. Where the value does not
  fit, or is an infinity or NaN, Go leaves the result to the implementation; the value
  here is the one of amd64.
\<close>

definition int64_of_float64 :: "float64 \<Rightarrow> int" where
  "int64_of_float64 v =
     (case v of
        Finite x \<Rightarrow>
          (let t = (if 0 \<le> x then \<lfloor>x\<rfloor> else \<lceil>x\<rceil>)
           in if - (2 ^ 63) \<le> t \<and> t < 2 ^ 63 then t else - (2 ^ 63))
      | _ \<Rightarrow> - (2 ^ 63))"

text \<open>
  Rounding errors: \<open>roundings k x y\<close> holds when \<open>y\<close> can be \<open>x\<close> after at most \<open>k\<close>
  roundings, each of relative error at most \<open>u = 2\<^sup>-\<^sup>5\<^sup>3\<close>: the two differ by a factor
  of at most \<open>(1 - u) ^ k\<close>, in either direction.
\<close>

definition unit_roundoff :: rat where
  "unit_roundoff = 1 / 2 ^ 53"

definition roundings :: "nat \<Rightarrow> rat \<Rightarrow> rat \<Rightarrow> bool" where
  "roundings k x y \<longleftrightarrow>
     x * (1 - unit_roundoff) ^ k \<le> y \<and> y * (1 - unit_roundoff) ^ k \<le> x"

section \<open>\<^verbatim>\<open>Wait\<close>\<close>

definition Second :: Duration where
  "Second = 1000000000"

text \<open>
  \<^verbatim>\<open>dt := (float64(8*3*LedCount) + 0.05) / float64(Frequency)\<close> and
  \<^verbatim>\<open>time.Duration(dt * float64(time.Second))\<close>, for channel 0 of the options.
\<close>

definition render_dt :: "int \<Rightarrow> int \<Rightarrow> float64" where
  "render_dt ledCount frequency =
     f64_div (f64_add (float64_of_int (int64 (8 * 3 * ledCount))) (round64 (5 / 100)))
             (float64_of_int frequency)"

definition render_duration :: "int \<Rightarrow> int \<Rightarrow> Duration" where
  "render_duration ledCount frequency =
     int64_of_float64 (f64_mul (render_dt ledCount frequency) (float64_of_int Second))"

text \<open>
  \<^verbatim>\<open>time.Until(t)\<close> at clock reading \<open>now\<close> saturates at the ends of the \<^verbatim>\<open>Duration\<close>
  range; \<^verbatim>\<open>time.Sleep(d)\<close> returns at once for \<open>d \<le> 0\<close> and otherwise the clock has
  advanced by \<open>d\<close> when it returns (the scheduler is taken to wake the caller on time).
\<close>

definition Until :: "Time \<Rightarrow> Time \<Rightarrow> Duration" where
  "Until t now = max (- (2 ^ 63)) (min (2 ^ 63 - 1) (t - now))"

definition Sleep :: "Duration \<Rightarrow> Time \<Rightarrow> Time" where
  "Sleep d now = (if d \<le> 0 then now else now + d)"

text \<open>\<^verbatim>\<open>Wait\<close> at clock reading \<open>now\<close>: the clock when it returns, and its \<^verbatim>\<open>error\<close>.\<close>

definition Wait :: "Heap \<Rightarrow> WS2811 \<Rightarrow> Time \<Rightarrow> panic + (Time \<times> error option)" where
  "Wait h ws now =
     (case derefOption h (options ws) of
        None \<Rightarrow> Inl NilDereference
      | Some opt \<Rightarrow>
          (case index (elems (Channels opt)) 0 of
             Inl p \<Rightarrow> Inl p
           | Inr c \<Rightarrow>
               let nextRender = lastRender ws + render_duration (LedCount c) (Frequency opt)
               in Inr (Sleep (Until nextRender now) now, None)))"

section \<open>\<^verbatim>\<open>SetLedsSync\<close>\<close>

text \<open>
  The loop \<^verbatim>\<open>for i := 0; i < l; i++ { ws2811.leds[channel][i] = leds[i] }\<close>, from \<open>i\<close>, on
  the device's \<^verbatim>\<open>leds\<close>; every index expression is checked as Go checks it.
\<close>

function set_loop :: "nat \<Rightarrow> nat \<Rightarrow> uint32 list \<Rightarrow> int \<Rightarrow> uint32 list option list
    \<Rightarrow> panic + uint32 list option list" where
  "set_loop i l src channel ls =
     (if i < l then
        (case index ls channel of
           Inl p \<Rightarrow> Inl p
         | Inr buf \<Rightarrow>
             (case index src (int i) of
                Inl p \<Rightarrow> Inl p
              | Inr v \<Rightarrow>
                  if i < length (elems buf)
                  then set_loop (Suc i) l src channel (ls[nat channel := Some ((elems buf)[i := v])])
                  else Inl IndexOutOfRange))
      else Inr ls)"
  by pat_completeness auto
termination
  by (relation "measure (\<lambda>(i, l, src, channel, ls). l - i)") auto

text \<open>
  \<^verbatim>\<open>SetLedsSync\<close> at clock reading \<open>now\<close>: the device, the clock when it returns and the
  \<^verbatim>\<open>error\<close>.
\<close>

definition SetLedsSync :: "Heap \<Rightarrow> WS2811 \<Rightarrow> Time \<Rightarrow> int \<Rightarrow> uint32 list option
    \<Rightarrow> panic + (WS2811 \<times> Time \<times> error option)" where
  "SetLedsSync h ws now channel new =
     (case Wait h ws now of
        Inl p \<Rightarrow> Inl p
      | Inr (t, Some e) \<Rightarrow> Inr (ws, t, Some (ErrorSettingLEDs e))
      | Inr (t, None) \<Rightarrow>
          let l = length (elems new)
          in (case index (leds ws) channel of
                Inl p \<Rightarrow> Inl p
              | Inr buf \<Rightarrow>
                  if l > length (elems buf) then Inr (ws, t, Some TooManyLEDs)
                  else (case set_loop 0 l (elems new) channel (leds ws) of
                          Inl p \<Rightarrow> Inl p
                        | Inr ls \<Rightarrow> Inr (ws\<lparr>leds := ls\<rparr>, t, None))))"

section \<open>\<^verbatim>\<open>Render\<close>\<close>

text \<open>
  \<^verbatim>\<open>json.Marshal\<close> of the payload struct \<^verbatim>\<open>{Option ChannelOption; Leds []uint32}\<close> with its
  field tags: integers in decimal, a \<^verbatim>\<open>[]byte\<close> as a base64 string, a \<^verbatim>\<open>nil\<close> slice as
  \<^verbatim>\<open>null\<close>. For these field types \<^verbatim>\<open>Marshal\<close> returns no error.
\<close>

function show_nat :: "nat \<Rightarrow> string" where
  "show_nat n =
     (if n < 10 then [''0123456789'' ! n]
      else show_nat (n div 10) @ [''0123456789'' ! (n mod 10)])"
  by pat_completeness auto
termination
  by (relation "measure id") auto

definition show_int :: "int \<Rightarrow> string" where
  "show_int i = (if i < 0 then CHR ''-'' # show_nat (nat (- i)) else show_nat (nat i))"

definition b64_char :: "nat \<Rightarrow> char" where
  "b64_char n =
     ''ABCDEFGHIJKLMNOPQRSTUVWXYZabcdefghijklmnopqrstuvwxyz0123456789+/'' ! (n mod 64)"

fun base64 :: "byte list \<Rightarrow> string" where
  "base64 [] = []"
| "base64 [a] =
     (let n = unat a * 65536
      in [b64_char (n div 262144), b64_char (n div 4096), CHR ''='', CHR ''=''])"
| "base64 [a, b] =
     (let n = unat a * 65536 + unat b * 256
      in [b64_char (n div 262144), b64_char (n div 4096), b64_char (n div 64), CHR ''=''])"
| "base64 (a # b # c # bs) =
     (let n = unat a * 65536 + unat b * 256 + unat c
      in [b64_char (n div 262144), b64_char (n div 4096), b64_char (n div 64), b64_char n]
         @ base64 bs)"

definition quoted :: "string \<Rightarrow> string" where
  "quoted s = CHR 0x22 # s @ [CHR 0x22]"

definition json_field :: "string \<Rightarrow> string \<Rightarrow> string" where
  "json_field name v = quoted name @ '':'' @ v"

fun commas :: "string list \<Rightarrow> string" where
  "commas [] = []"
| "commas [x] = x"
| "commas (x # y # ys) = x @ '','' @ commas (y # ys)"

definition json_object :: "string list \<Rightarrow> string" where
  "json_object fs = ''{'' @ commas fs @ ''}''"

definition json_bytes :: "byte list option \<Rightarrow> string" where
  "json_bytes g = (case g of None \<Rightarrow> ''null'' | Some bs \<Rightarrow> quoted (base64 bs))"

definition json_uint32s :: "uint32 list option \<Rightarrow> string" where
  "json_uint32s l =
     (case l of None \<Rightarrow> ''null''
      | Some xs \<Rightarrow> ''['' @ commas (map (\<lambda>x. show_nat (unat x)) xs) @ '']'')"

definition json_ChannelOption :: "ChannelOptionVal \<Rightarrow> string" where
  "json_ChannelOption c =
     json_object
       [json_field ''LedCount'' (show_int (LedCount c)),
        json_field ''StripeType'' (show_int (StripeType c)),
        json_field ''Brightness'' (show_int (Brightness c)),
        json_field ''WShift'' (show_int (WShift c)),
        json_field ''RShift'' (show_int (RShift c)),
        json_field ''GShift'' (show_int (GShift c)),
        json_field ''BShift'' (show_int (BShift c)),
        json_field ''Gamma'' (json_bytes (Gamma c))]"

definition Marshal :: "ChannelOptionVal \<Rightarrow> uint32 list option \<Rightarrow> string" where
  "Marshal opt l =
     json_object [json_field ''option'' (json_ChannelOption opt),
                  json_field ''leds'' (json_uint32s l)]"

text \<open>
  \<^verbatim>\<open>Render\<close> at clock reading \<open>now\<close>. The send on the hub's \<^verbatim>\<open>broadcast\<close> channel blocks
  until the hub's loop receives the message, \<open>blocked\<close> nanoseconds after the send was
  issued; \<^verbatim>\<open>time.Now()\<close> is read after that.
\<close>

definition Render :: "Heap \<Rightarrow> nat \<Rightarrow> WS2811 \<Rightarrow> Time
    \<Rightarrow> panic + (WS2811 \<times> Time \<times> error option)" where
  "Render h blocked ws now =
     (case Wait h ws now of
        Inl p \<Rightarrow> Inl p
      | Inr (t, Some e) \<Rightarrow> Inr (ws, t, Some e)
      | Inr (t, None) \<Rightarrow>
          (case derefOption h (options ws) of
             None \<Rightarrow> Inl NilDereference
           | Some opt \<Rightarrow>
               (case index (elems (Channels opt)) 0 of
                  Inl p \<Rightarrow> Inl p
                | Inr c \<Rightarrow>
                    (case index (leds ws) 0 of
                       Inl p \<Rightarrow> Inl p
                     | Inr l \<Rightarrow>
                         (case hub ws of
                            None \<Rightarrow> Inl NilDereference
                          | Some hb \<Rightarrow>
                              let json = Marshal c l;
                                  sent = ws\<lparr>hub := Some (hb\<lparr>broadcast := broadcast hb @ [json]\<rparr>)\<rparr>;
                                  t' = t + int blocked
                              in Inr (sent\<lparr>lastRender := t'\<rparr>, t', None))))))"

section \<open>The connection pump: \<^verbatim>\<open>Client.sendMessage\<close>\<close>

text \<open>
  The websocket connection as the pump sees it: the text messages that were finalized on
  it (what the transport observes), and which of its input/output calls fail: call
  number \<open>k\<close> fails when \<open>fails k\<close> holds. The writer that \<^verbatim>\<open>NextWriter\<close> returns collects
  the bytes written to it; its \<^verbatim>\<open>Close\<close> finalizes them as one message.
\<close>

record Conn =
  messages :: "string list"
  calls :: nat
  fails :: "nat \<Rightarrow> bool"

text \<open>
  \<^verbatim>\<open>Client\<close>: the connection and the buffered channel \<^verbatim>\<open>send\<close> of outbound messages,
  oldest first (the \<^verbatim>\<open>hub\<close> pointer is not used by \<^verbatim>\<open>sendMessage\<close>).
\<close>

record Client =
  conn :: Conn
  send :: "string list"

datatype send_error = CantGetWriter | CantSendMessage | CantSendQueued | CantCloseWriter

definition io_call :: "Conn \<Rightarrow> bool \<times> Conn" where
  "io_call c = (\<not> fails c (calls c), c\<lparr>calls := Suc (calls c)\<rparr>)"

text \<open>
  A receive \<^verbatim>\<open><-c.send\<close>: the oldest message. On an empty channel it yields the zero
  value, as a closed channel does (the loop below never receives from an empty channel).
\<close>

definition recv :: "string list \<Rightarrow> string \<times> string list" where
  "recv q = (case q of [] \<Rightarrow> ([], []) | m # q' \<Rightarrow> (m, q'))"

text \<open>
  The loop \<^verbatim>\<open>for i := 0; i < n; i++ { w.Write(<-c.send) }\<close> with \<open>k\<close> iterations to go, on
  the connection, the writer's buffer and the channel: \<open>Inl\<close> when a write fails.
\<close>

fun drain :: "nat \<Rightarrow> Conn \<Rightarrow> string \<Rightarrow> string list
    \<Rightarrow> (Conn \<times> string list) + (Conn \<times> string \<times> string list)" where
  "drain 0 c w q = Inr (c, w, q)"
| "drain (Suc k) c w q =
     (let (m, q') = recv q; (ok, c') = io_call c
      in if ok then drain k c' (w @ m) q' else Inl (c', q'))"

text \<open>
  \<^verbatim>\<open>sendMessage\<close>. \<open>late\<close> are the messages the hub enqueues between the pump's receive
  of \<open>message\<close> and the evaluation of \<^verbatim>\<open>len(c.send)\<close>. The source ends without a
  \<^verbatim>\<open>return\<close> after the writer is closed; that path returns \<^verbatim>\<open>nil\<close> here.
\<close>

definition sendMessage :: "Client \<Rightarrow> string list \<Rightarrow> string \<Rightarrow> Client \<times> send_error option" where
  "sendMessage cl late message =
     (let (ok1, c1) = io_call (conn cl)
      in if \<not> ok1 then (cl\<lparr>conn := c1\<rparr>, Some CantGetWriter)
         else
           let (ok2, c2) = io_call c1
           in if \<not> ok2 then (cl\<lparr>conn := c2\<rparr>, Some CantSendMessage)
              else
                let q = send cl @ late; n = length q
                in (case drain n c2 message q of
                      Inl (c3, q') \<Rightarrow> (\<lparr>conn = c3, send = q'\<rparr>, Some CantSendQueued)
                    | Inr (c3, w, q') \<Rightarrow>
                        let (ok4, c4) = io_call c3
                        in if \<not> ok4 then (\<lparr>conn = c4, send = q'\<rparr>, Some CantCloseWriter)
                           else (\<lparr>conn = c4\<lparr>messages := messages c4 @ [w]\<rparr>, send = q'\<rparr>,
                                 None)))"

section \<open>The package variable \<^verbatim>\<open>DefaultOptions\<close>\<close>

definition TargetFreq :: int where
  "TargetFreq = 800000"

definition DefaultLedCount :: int where
  "DefaultLedCount = 16"

definition DefaultBrightness :: int where
  "DefaultBrightness = 64"

text \<open>
  The store at program start holds \<^verbatim>\<open>DefaultOptions\<close> at address 0 and the backing array
  of its \<^verbatim>\<open>Channels\<close> at address 1. The constant \<^verbatim>\<open>WS2812Strip\<close> is declared in a file
  that is not among the sources: it is the parameter \<open>ws2812Strip\<close>.
\<close>

definition zeroChannel :: ChannelOptionRef where
  "zeroChannel =
     \<lparr>LedCount = 0, StripeType = 0, Brightness = 0, WShift = 0, RShift = 0, GShift = 0,
      BShift = 0, Gamma = None\<rparr>"

definition zeroOption :: OptionRef where
  "zeroOption = \<lparr>RenderWaitTime = 0, Frequency = 0, Channels = None\<rparr>"

definition emptyHeap :: Heap where
  "emptyHeap =
     \<lparr>optionObjs = (\<lambda>a. zeroOption), channelArrs = (\<lambda>a. []), byteArrs = (\<lambda>a. []),
      nextAddr = 0\<rparr>"

definition DefaultOptions :: "addr option" where
  "DefaultOptions = Some 0"

definition startHeap :: "int \<Rightarrow> Heap" where
  "startHeap ws2812Strip =
     emptyHeap
       \<lparr>optionObjs := (optionObjs emptyHeap)
          (0 := zeroOption\<lparr>Frequency := TargetFreq, Channels := Some 1\<rparr>),
        channelArrs := (channelArrs emptyHeap)
          (1 := [zeroChannel\<lparr>LedCount := DefaultLedCount, Brightness := DefaultBrightness,
                   StripeType := ws2812Strip, Gamma := None\<rparr>]),
        nextAddr := 2\<rparr>"

text \<open>
  A store for examples: an \<^verbatim>\<open>Option\<close> at address 0 with frequency \<open>f\<close> whose
  \<^verbatim>\<open>Channels\<close> array \<open>cs\<close> is at address 1, and a gamma table \<open>g\<close> at address 2.
\<close>

definition exampleHeap :: "int \<Rightarrow> ChannelOptionRef list \<Rightarrow> byte list \<Rightarrow> Heap" where
  "exampleHeap f cs g =
     emptyHeap
       \<lparr>optionObjs := (optionObjs emptyHeap)
          (0 := zeroOption\<lparr>Frequency := f, Channels := Some 1\<rparr>),
        channelArrs := (channelArrs emptyHeap) (1 := cs),
        byteArrs := (byteArrs emptyHeap) (2 := g),
        nextAddr := 3\<rparr>"

definition emptyHub :: "Hub option" where
  "emptyHub = Some \<lparr>broadcast = []\<rparr>"

section \<open>Ownership of store cells\<close>














section \<open>Devices in use\<close>

text \<open>
  \<open>ready h ws\<close>: the \<^verbatim>\<open>leds\<close> of the device have the shape \<^verbatim>\<open>Init\<close> gives them for its
  options: \<^verbatim>\<open>RpiPwmChannels\<close> slots, a buffer of \<^verbatim>\<open>LedCount\<close> values for each
  configured channel and \<^verbatim>\<open>nil\<close> in the other slots.
\<close>

definition ready :: "Heap \<Rightarrow> WS2811 \<Rightarrow> bool" where
  "ready h ws =
     (case derefOption h (options ws) of
        None \<Rightarrow> False
      | Some opt \<Rightarrow>
          let cs = elems (Channels opt)
          in length (leds ws) = RpiPwmChannels \<and> length cs \<le> RpiPwmChannels \<and>
             (\<forall>i < RpiPwmChannels.
                if i < length cs
                then (case leds ws ! i of None \<Rightarrow> False
                      | Some buf \<Rightarrow> int (length buf) = LedCount (cs ! i))
                else leds ws ! i = None))"

text \<open>The device made from \<^verbatim>\<open>DefaultOptions\<close>, with the store that holds its options.\<close>

definition defaultDevice :: "int \<Rightarrow> Heap \<times> WS2811" where
  "defaultDevice ws2812Strip = MakeWS2811 (startHeap ws2812Strip) DefaultOptions emptyHub"

text \<open>The default device after \<^verbatim>\<open>Init\<close>: 16 dark LEDs on channel 0.\<close>

definition readyDevice :: "int \<Rightarrow> WS2811" where
  "readyDevice ws2812Strip =
     (snd (defaultDevice ws2812Strip))\<lparr>leds := [Some (replicate 16 0), None]\<rparr>"




definition noChannelDevice :: "Heap \<times> WS2811" where
  "noChannelDevice = MakeWS2811 (exampleHeap 800000 [] []) (Some 0) emptyHub"

text \<open>
  A device made from options with one channel of 3 LEDs, shifts for the colours and a gamma
  table of four bytes; its LEDs after \<^verbatim>\<open>Init\<close> and a write of red, green and blue.
\<close>

definition frameDevice :: "Heap \<times> WS2811" where
  "frameDevice =
     MakeWS2811
       (exampleHeap 800000
          [\<lparr>LedCount = 3, StripeType = 1050624, Brightness = 255, WShift = 24,
            RShift = 16, GShift = 8, BShift = 0, Gamma = Some 2\<rparr>] [0, 127, 255, 16])
       (Some 0) emptyHub"

definition frameLeds :: "uint32 list option list" where
  "frameLeds = [Some [16711680, 65280, 255], None]"


section \<open>Properties of the deep copy\<close>


























section \<open>\<^verbatim>\<open>Init\<close>\<close>

lemma makeable_iff: "makeable n \<longleftrightarrow> 0 \<le> n \<and> n \<le> 2 ^ 46"
  by (auto simp: makeable_def maxAlloc_def)

lemma make_uint32_Inr: "make_uint32 n = Inr b \<longleftrightarrow> makeable n \<and> b = replicate (nat n) 0"
  by (auto simp: make_uint32_def)

lemma make_uint32_Inl: "make_uint32 n = Inl p \<longleftrightarrow> \<not> makeable n \<and> p = MakeSliceLenOutOfRange"
  by (auto simp: make_uint32_def)

lemma init_loop_ok:
  "i + length cs \<le> length ls \<Longrightarrow> \<forall>c\<in>set cs. makeable (LedCount c) \<Longrightarrow>
   init_loop i cs ls =
     Inr (take i ls @ map (\<lambda>c. Some (replicate (nat (LedCount c)) 0)) cs @ drop (i + length cs) ls)"
proof (induction cs arbitrary: i ls)
  case Nil
  then show ?case by simp
next
  case (Cons c cs)
  have i: "i < length ls" using Cons.prems by simp
  have "init_loop i (c # cs) ls =
          init_loop (Suc i) cs (ls[i := Some (replicate (nat (LedCount c)) 0)])"
    using Cons.prems i by (simp add: make_uint32_def)
  also have "\<dots> = Inr (take (Suc i) (ls[i := Some (replicate (nat (LedCount c)) 0)])
       @ map (\<lambda>c. Some (replicate (nat (LedCount c)) 0)) cs
       @ drop (Suc i + length cs) (ls[i := Some (replicate (nat (LedCount c)) 0)]))"
    using Cons.prems by (intro Cons.IH) auto
  finally show ?case using i
    by (simp add: take_Suc_conv_app_nth)
qed

lemma init_loop_Inr:
  "init_loop i cs ls = Inr ls' \<Longrightarrow> i \<le> length ls \<Longrightarrow>
   i + length cs \<le> length ls \<and> (\<forall>c\<in>set cs. makeable (LedCount c))"
proof (induction cs arbitrary: i ls)
  case Nil
  then show ?case by simp
next
  case (Cons c cs)
  then show ?case
    by (fastforce simp: make_uint32_def split: if_splits sum.splits)
qed





lemmas heap_defs = startHeap_def DefaultOptions_def emptyHeap_def zeroOption_def zeroChannel_def
  exampleHeap_def TargetFreq_def DefaultLedCount_def DefaultBrightness_def
lemmas copy_defs = MakeWS2811_def copyOption_def copyChannels_def copyChannel_def copyBytes_def
lemmas deref_defs = derefOption_def derefChannels_def derefChannel_def derefBytes_def

lemma defaultDevice_ws:
  "snd (defaultDevice s) =
     \<lparr>initialized = False, options = Some 2, leds = [], hub = emptyHub, lastRender = 0\<rparr>"
  by (simp add: defaultDevice_def copy_defs heap_defs)

lemma defaultDevice_options:
  "derefOption (fst (defaultDevice s)) (Some 2) =
     Some \<lparr>RenderWaitTime = 0, Frequency = 800000,
           Channels = Some [\<lparr>LedCount = 16, StripeType = s, Brightness = 64, WShift = 0,
                             RShift = 0, GShift = 0, BShift = 0, Gamma = None\<rparr>]\<rparr>"
  by (simp add: defaultDevice_def copy_defs heap_defs deref_defs)

lemma slots_None: "replicate RpiPwmChannels None = [None, None]"
  by (simp add: RpiPwmChannels_def numeral_2_eq_2)

lemma Init_keeps_initialized:
  "Init h ws = Inr (ws', e) \<Longrightarrow> initialized ws' = initialized ws"
  by (auto simp: Init_def split: if_splits option.splits sum.splits)

lemma Init_again:
  assumes "\<not> initialized ws" and "Init h ws = Inr (ws', e)"
  shows "Init h ws' = Inr (ws', None)"
proof -
  obtain opt ls where o: "derefOption h (options ws) = Some opt"
    and l: "init_loop 0 (elems (Channels opt)) (replicate RpiPwmChannels None) = Inr ls"
    and w: "ws' = ws\<lparr>leds := ls\<rparr>"
    using assms by (auto simp: Init_def split: option.splits sum.splits)
  show ?thesis using assms(1) o l w by (simp add: Init_def)
qed

lemma Init_default:
  "Init (fst (defaultDevice s)) (snd (defaultDevice s)) = Inr (readyDevice s, None)"
  by (simp add: Init_def defaultDevice_ws defaultDevice_options elems_def slots_None
      make_uint32_def makeable_iff readyDevice_def)

text \<open>
  Claim C1. A second \<^verbatim>\<open>Init\<close> on the same instance should return the error "device
  already initialized". \<^verbatim>\<open>Init\<close> never sets \<^verbatim>\<open>initialized\<close>, so its guard never fires:
  on the device made from \<^verbatim>\<open>DefaultOptions\<close> the first call returns \<^verbatim>\<open>nil\<close> and so does
  the second, which allocates the buffers again.
\<close>

theorem Init_twice_returns_nil:
  "Init (fst (defaultDevice s)) (snd (defaultDevice s)) = Inr (readyDevice s, None) \<and>
   Init (fst (defaultDevice s)) (readyDevice s) = Inr (readyDevice s, None)"
proof -
  have "\<not> initialized (snd (defaultDevice s))" by (simp add: defaultDevice_ws)
  from Init_again [OF this Init_default] Init_default show ?thesis by simp
qed

lemma readyDevice_options:
  "derefOption (fst (defaultDevice s)) (options (readyDevice s)) =
     Some \<lparr>RenderWaitTime = 0, Frequency = 800000,
           Channels = Some [\<lparr>LedCount = 16, StripeType = s, Brightness = 64, WShift = 0,
                             RShift = 0, GShift = 0, BShift = 0, Gamma = None\<rparr>]\<rparr>"
  by (simp add: readyDevice_def defaultDevice_ws defaultDevice_options)










section \<open>The write loop and \<^verbatim>\<open>Wait\<close>\<close>

lemma index_Inr: "index xs i = Inr x \<longleftrightarrow> 0 \<le> i \<and> i < int (length xs) \<and> x = xs ! nat i"
  by (auto simp: index_def)

lemma index_Inl: "index xs i = Inl p \<longleftrightarrow> (i < 0 \<or> int (length xs) \<le> i) \<and> p = IndexOutOfRange"
  by (auto simp: index_def)

lemma index_nat: "n < length xs \<Longrightarrow> index xs (int n) = Inr (xs ! n)"
  by (simp add: index_def)

lemma set_loop_ok:
  "0 \<le> channel \<Longrightarrow> nat channel < length ls \<Longrightarrow> ls ! nat channel = Some cur \<Longrightarrow>
   l \<le> length cur \<Longrightarrow> l \<le> length src \<Longrightarrow> i \<le> l \<Longrightarrow>
   set_loop i l src channel ls =
     Inr (ls[nat channel := Some (take i cur @ drop i (take l src) @ drop l cur)])"
proof (induction "l - i" arbitrary: i ls cur)
  case 0
  then have "i = l" by simp
  moreover have "ls[nat channel := Some cur] = ls"
    using 0 by (metis list_update_id)
  ultimately show ?case using 0 by (subst set_loop.simps) simp
next
  case (Suc d)
  let ?c = "nat channel"
  let ?cur = "cur[i := src ! i]"
  let ?ls = "ls[?c := Some ?cur]"
  have i: "i < l" using Suc.hyps(2) by simp
  have ch: "channel < int (length ls)" using Suc.prems by linarith
  have step: "set_loop i l src channel ls = set_loop (Suc i) l src channel ?ls"
    using i ch Suc.prems by (subst set_loop.simps) (simp add: index_def elems_def)
  have "set_loop (Suc i) l src channel ?ls =
      Inr (?ls[?c := Some (take (Suc i) ?cur @ drop (Suc i) (take l src) @ drop l ?cur)])"
    using Suc.hyps(2) Suc.prems i by (intro Suc.hyps(1)) simp_all
  moreover have "take (Suc i) ?cur = take i cur @ [src ! i]"
    using i Suc.prems by (simp add: take_Suc_conv_app_nth)
  moreover have "drop l ?cur = drop l cur" using i by simp
  moreover have "drop i (take l src) = src ! i # drop (Suc i) (take l src)"
    using i Suc.prems by (simp add: Cons_nth_drop_Suc [symmetric])
  ultimately show ?case using step by simp
qed

lemma Wait_result:
  "Wait h ws now = Inr (t, e) \<Longrightarrow>
   e = None \<and> (\<exists>opt. derefOption h (options ws) = Some opt \<and> elems (Channels opt) \<noteq> [])"
  by (auto simp: Wait_def index_def Let_def split: option.splits sum.splits if_splits)

lemma Wait_ok:
  assumes "derefOption h (options ws) = Some opt" and "elems (Channels opt) \<noteq> []"
  shows "Wait h ws now =
     Inr (Sleep (Until (lastRender ws
              + render_duration (LedCount (elems (Channels opt) ! 0)) (Frequency opt)) now) now,
          None)"
  using assms by (simp add: Wait_def index_def Let_def)

lemma Wait_panics:
  "Wait h ws now = Inl p \<longleftrightarrow>
     (derefOption h (options ws) = None \<and> p = NilDereference) \<or>
     (\<exists>opt. derefOption h (options ws) = Some opt \<and> elems (Channels opt) = [] \<and>
            p = IndexOutOfRange)"
  by (auto simp: Wait_def index_def Let_def split: option.splits sum.splits if_splits)


lemma SetLedsSync_after_Wait:
  "Wait h ws now = Inr (t, None) \<Longrightarrow>
   SetLedsSync h ws now channel new =
     (case index (leds ws) channel of
        Inl p \<Rightarrow> Inl p
      | Inr buf \<Rightarrow>
          if length (elems new) > length (elems buf) then Inr (ws, t, Some TooManyLEDs)
          else (case set_loop 0 (length (elems new)) (elems new) channel (leds ws) of
                  Inl p \<Rightarrow> Inl p
                | Inr ls \<Rightarrow> Inr (ws\<lparr>leds := ls\<rparr>, t, None)))"
  by (simp add: SetLedsSync_def Let_def)

lemma SetLedsSync_Wait_panic:
  "Wait h ws now = Inl p \<Longrightarrow> SetLedsSync h ws now channel new = Inl p"
  by (simp add: SetLedsSync_def)

lemma Wait_cases:
  obtains p where "Wait h ws now = Inl p" | t where "Wait h ws now = Inr (t, None)"
proof (cases "Wait h ws now")
  case (Inl p)
  then show ?thesis using that by blast
next
  case (Inr r)
  then show ?thesis using that Wait_result [of h ws now "fst r" "snd r"] by (cases r) auto
qed

lemma readyD:
  assumes "ready h ws" and "derefOption h (options ws) = Some opt"
  shows "length (leds ws) = RpiPwmChannels"
    and "length (elems (Channels opt)) \<le> RpiPwmChannels"
    and "i < length (elems (Channels opt)) \<Longrightarrow>
         \<exists>buf. leds ws ! i = Some buf \<and> int (length buf) = LedCount (elems (Channels opt) ! i)"
    and "length (elems (Channels opt)) \<le> i \<Longrightarrow> i < RpiPwmChannels \<Longrightarrow> leds ws ! i = None"
proof -
  let ?cs = "elems (Channels opt)"
  have r: "length (leds ws) = RpiPwmChannels \<and> length ?cs \<le> RpiPwmChannels \<and>
     (\<forall>i < RpiPwmChannels.
        if i < length ?cs
        then (case leds ws ! i of None \<Rightarrow> False | Some buf \<Rightarrow> int (length buf) = LedCount (?cs ! i))
        else leds ws ! i = None)"
    using assms by (simp add: ready_def Let_def)
  show "length (leds ws) = RpiPwmChannels" "length ?cs \<le> RpiPwmChannels" using r by simp_all
  show "\<exists>buf. leds ws ! i = Some buf \<and> int (length buf) = LedCount (?cs ! i)" if "i < length ?cs"
  proof -
    have "i < RpiPwmChannels" using that r by simp
    then have "case leds ws ! i of None \<Rightarrow> False | Some buf \<Rightarrow> int (length buf) = LedCount (?cs ! i)"
      using r that by auto
    then show ?thesis by (cases "leds ws ! i") simp_all
  qed
  show "leds ws ! i = None" if "length ?cs \<le> i" "i < RpiPwmChannels"
    using r that by auto
qed

lemma ready_options: "ready h ws \<Longrightarrow> \<exists>opt. derefOption h (options ws) = Some opt"
  by (cases "derefOption h (options ws)") (simp_all add: ready_def)

lemma readyI:
  assumes "derefOption h (options ws) = Some opt"
    and "length (leds ws) = RpiPwmChannels"
    and "length (elems (Channels opt)) \<le> RpiPwmChannels"
    and "\<And>i. i < length (elems (Channels opt)) \<Longrightarrow>
         \<exists>buf. leds ws ! i = Some buf \<and> int (length buf) = LedCount (elems (Channels opt) ! i)"
    and "\<And>i. length (elems (Channels opt)) \<le> i \<Longrightarrow> i < RpiPwmChannels \<Longrightarrow> leds ws ! i = None"
  shows "ready h ws"
proof -
  let ?cs = "elems (Channels opt)"
  have "if i < length ?cs
        then (case leds ws ! i of None \<Rightarrow> False | Some buf \<Rightarrow> int (length buf) = LedCount (?cs ! i))
        else leds ws ! i = None" if "i < RpiPwmChannels" for i
  proof (cases "i < length ?cs")
    case True
    then obtain buf where "leds ws ! i = Some buf" "int (length buf) = LedCount (?cs ! i)"
      using assms(4) by blast
    then show ?thesis using True by simp
  next
    case False
    then show ?thesis using assms(5) [of i] that by simp
  qed
  then show ?thesis using assms(1-3) by (simp add: ready_def Let_def)
qed

lemma Init_ready:
  assumes "\<not> initialized ws" and "Init h ws = Inr (ws', e)"
  shows "ready h ws'"
proof -
  obtain opt ls where o: "derefOption h (options ws) = Some opt"
    and l: "init_loop 0 (elems (Channels opt)) (replicate RpiPwmChannels None) = Inr ls"
    and w: "ws' = ws\<lparr>leds := ls\<rparr>"
    using assms by (auto simp: Init_def split: option.splits sum.splits)
  let ?cs = "elems (Channels opt)"
  have le: "length ?cs \<le> RpiPwmChannels" and mk: "\<forall>c\<in>set ?cs. makeable (LedCount c)"
    using init_loop_Inr [OF l] by simp_all
  have nonneg: "\<forall>c\<in>set ?cs. 0 \<le> LedCount c" using mk by (simp add: makeable_def)
  have ls: "ls = map (\<lambda>c. Some (replicate (nat (LedCount c)) 0)) ?cs
                 @ drop (length ?cs) (replicate RpiPwmChannels None)"
    using init_loop_ok [of 0 ?cs "replicate RpiPwmChannels None"] le mk l by simp
  show ?thesis
  proof (rule readyI)
    show "derefOption h (options ws') = Some opt" using o w by simp
    show "length (leds ws') = RpiPwmChannels" using ls w le by simp
    show "length ?cs \<le> RpiPwmChannels" by (rule le)
    show "\<exists>buf. leds ws' ! i = Some buf \<and> int (length buf) = LedCount (?cs ! i)"
      if "i < length ?cs" for i
      using that ls w nonneg by (simp add: nth_append)
    show "leds ws' ! i = None" if "length ?cs \<le> i" "i < RpiPwmChannels" for i
      using that ls w by (simp add: nth_append)
  qed
qed


lemma readyDevice_ready: "ready (fst (defaultDevice s)) (readyDevice s)"
  using Init_ready [OF _ Init_default] by (simp add: defaultDevice_ws)

text \<open>
  Claim C3. On a device in use, a write to a configured channel with more values than the
  channel's \<^verbatim>\<open>LedCount\<close> returns the error "Too many LEDs" once \<^verbatim>\<open>Wait\<close> has returned,
  and the device, with every LED buffer, is as it was before the call.
\<close>

theorem SetLedsSync_rejects_excess:
  assumes "ready h ws" and "derefOption h (options ws) = Some opt"
    and "0 \<le> channel" and "channel < int (length (elems (Channels opt)))"
    and "LedCount (elems (Channels opt) ! nat channel) < int (length (elems new))"
  shows "\<exists>t. Wait h ws now = Inr (t, None) \<and>
             SetLedsSync h ws now channel new = Inr (ws, t, Some TooManyLEDs)"
proof -
  let ?cs = "elems (Channels opt)"
  have ne: "?cs \<noteq> []" using assms(3,4) by auto
  obtain t where w: "Wait h ws now = Inr (t, None)"
    using Wait_ok [OF assms(2) ne] by blast
  have c: "nat channel < length ?cs" using assms(3,4) by simp
  obtain buf where buf: "leds ws ! nat channel = Some buf"
    "int (length buf) = LedCount (?cs ! nat channel)"
    using readyD(3) [OF assms(1,2) c] by blast
  have "channel < int (length (leds ws))"
    using readyD(1,2) [OF assms(1,2)] assms(4) by simp
  then have "index (leds ws) channel = Inr (Some buf)"
    using assms(3) buf by (simp add: index_def)
  moreover have "length (elems (Some buf)) < length (elems new)"
    using buf assms(5) by (simp add: elems_def)
  ultimately show ?thesis
    using w by (simp add: SetLedsSync_after_Wait)
qed

text \<open>
  Seventeen values for the sixteen LEDs of the default device.
\<close>

theorem SetLedsSync_rejects_excess_witness:
  "\<exists>t. Wait (fst (defaultDevice 0)) (readyDevice 0) 0 = Inr (t, None) \<and>
       SetLedsSync (fst (defaultDevice 0)) (readyDevice 0) 0 0 (Some (replicate 17 255)) =
         Inr (readyDevice 0, t, Some TooManyLEDs)"
  using SetLedsSync_rejects_excess [OF readyDevice_ready readyDevice_options,
      of 0 0 "Some (replicate 17 255)" 0]
  by (simp add: elems_def)

section \<open>\<^verbatim>\<open>SetLedsSync\<close> and \<^verbatim>\<open>Leds\<close>\<close>

lemma Leds_slot:
  "0 \<le> channel \<Longrightarrow> channel < int (length (leds ws)) \<Longrightarrow>
   Leds ws channel = Inr (leds ws ! nat channel)"
  by (simp add: Leds_def index_def)

text \<open>
  Claim C4. On a device in use, a write to a configured channel of at most \<^verbatim>\<open>LedCount\<close>
  values returns \<^verbatim>\<open>nil\<close>; afterwards \<^verbatim>\<open>Leds\<close> of that channel is the written values
  followed by the old contents from index \<open>len(values)\<close> on (same length, nothing zeroed),
  the other channels read as before and the device keeps its shape.
\<close>

theorem SetLedsSync_writes_prefix:
  assumes "ready h ws" and "derefOption h (options ws) = Some opt"
    and "0 \<le> channel" and "channel < int (length (elems (Channels opt)))"
    and "int (length (elems new)) \<le> LedCount (elems (Channels opt) ! nat channel)"
  shows "\<exists>ws' t old.
           SetLedsSync h ws now channel new = Inr (ws', t, None) \<and>
           Leds ws channel = Inr (Some old) \<and>
           Leds ws' channel = Inr (Some (elems new @ drop (length (elems new)) old)) \<and>
           length (elems new @ drop (length (elems new)) old) = length old \<and>
           (\<forall>c. c \<noteq> channel \<longrightarrow> Leds ws' c = Leds ws c) \<and>
           ready h ws'"
proof -
  let ?cs = "elems (Channels opt)"
  let ?l = "length (elems new)"
  let ?c = "nat channel"
  have ne: "?cs \<noteq> []" using assms(3,4) by auto
  obtain t where w: "Wait h ws now = Inr (t, None)"
    using Wait_ok [OF assms(2) ne] by blast
  have c: "?c < length ?cs" using assms(3,4) by simp
  obtain old where old: "leds ws ! ?c = Some old" "int (length old) = LedCount (?cs ! ?c)"
    using readyD(3) [OF assms(1,2) c] by blast
  have len: "length (leds ws) = RpiPwmChannels" and le: "length ?cs \<le> RpiPwmChannels"
    using readyD(1,2) [OF assms(1,2)] by simp_all
  have cl: "?c < length (leds ws)" using c len le by simp
  then have ci: "channel < int (length (leds ws))" using assms(3) by linarith
  have idx: "index (leds ws) channel = Inr (Some old)"
    using assms(3) ci old by (simp add: index_def)
  have fits: "?l \<le> length old" using old assms(5) by simp
  let ?buf = "elems new @ drop ?l old"
  let ?ls = "(leds ws)[?c := Some ?buf]"
  have loop: "set_loop 0 ?l (elems new) channel (leds ws) = Inr ?ls"
    using set_loop_ok [OF assms(3) cl old(1) fits, of "elems new" 0] by simp
  have res: "SetLedsSync h ws now channel new = Inr (ws\<lparr>leds := ?ls\<rparr>, t, None)"
    using w idx fits loop by (simp add: SetLedsSync_after_Wait elems_def)
  have a: "Leds ws channel = Inr (Some old)"
    using assms(3) ci old by (simp add: Leds_def index_def)
  have b: "Leds (ws\<lparr>leds := ?ls\<rparr>) channel = Inr (Some ?buf)"
    using assms(3) ci cl by (simp add: Leds_def index_def)
  have blen: "length ?buf = length old" using fits by simp
  have others: "Leds (ws\<lparr>leds := ?ls\<rparr>) c = Leds ws c" if "c \<noteq> channel" for c
  proof (cases "0 \<le> c \<and> c < int (length (leds ws))")
    case True
    then have "nat c \<noteq> ?c" using that assms(3) by (simp add: eq_nat_nat_iff)
    then show ?thesis using True by (simp add: Leds_def index_def)
  next
    case False
    then show ?thesis by (auto simp: Leds_def index_def)
  qed
  have rdy: "ready h (ws\<lparr>leds := ?ls\<rparr>)"
  proof (rule readyI)
    show "derefOption h (options (ws\<lparr>leds := ?ls\<rparr>)) = Some opt" using assms(2) by simp
    show "length (leds (ws\<lparr>leds := ?ls\<rparr>)) = RpiPwmChannels" using len by simp
    show "length ?cs \<le> RpiPwmChannels" by (rule le)
    show "\<exists>buf. leds (ws\<lparr>leds := ?ls\<rparr>) ! i = Some buf \<and> int (length buf) = LedCount (?cs ! i)"
      if i: "i < length ?cs" for i
    proof (cases "i = ?c")
      case True
      then show ?thesis using cl blen old by simp
    next
      case False
      then show ?thesis using readyD(3) [OF assms(1,2) i] by simp
    qed
    show "leds (ws\<lparr>leds := ?ls\<rparr>) ! i = None" if "length ?cs \<le> i" "i < RpiPwmChannels" for i
    proof -
      have "i \<noteq> ?c" using that c by simp
      then show ?thesis using readyD(4) [OF assms(1,2) that] by simp
    qed
  qed
  show ?thesis using res a b blen others rdy by blast
qed

text \<open>
  Three values written to the sixteen LEDs of the default device.
\<close>

theorem SetLedsSync_writes_prefix_witness:
  "\<exists>ws' t old.
     SetLedsSync (fst (defaultDevice 0)) (readyDevice 0) 0 0 (Some [1, 2, 3]) = Inr (ws', t, None) \<and>
     Leds (readyDevice 0) 0 = Inr (Some old) \<and>
     Leds ws' 0 = Inr (Some (elems (Some [1, 2, 3]) @ drop (length (elems (Some [1, 2, 3 :: uint32]))) old)) \<and>
     length (elems (Some [1, 2, 3 :: uint32]) @ drop (length (elems (Some [1, 2, 3 :: uint32]))) old)
       = length old \<and>
     (\<forall>c. c \<noteq> 0 \<longrightarrow> Leds ws' c = Leds (readyDevice 0) c) \<and>
     ready (fst (defaultDevice 0)) ws'"
proof (rule SetLedsSync_writes_prefix [OF readyDevice_ready readyDevice_options])
  show "(0::int) \<le> 0" by simp
  show "0 < int (length (elems (Channels
      \<lparr>RenderWaitTime = 0, Frequency = 800000,
       Channels = Some [\<lparr>LedCount = 16, StripeType = 0, Brightness = 64, WShift = 0,
                         RShift = 0, GShift = 0, BShift = 0, Gamma = None\<rparr>]\<rparr>)))"
    by (simp add: elems_def)
  show "int (length (elems (Some [1, 2, 3 :: uint32]))) \<le> LedCount (elems (Channels
      \<lparr>RenderWaitTime = 0, Frequency = 800000,
       Channels = Some [\<lparr>LedCount = 16, StripeType = 0, Brightness = 64, WShift = 0,
                         RShift = 0, GShift = 0, BShift = 0, Gamma = None\<rparr>]\<rparr>) ! nat 0)"
    by (simp add: elems_def)
qed


lemma Leds_bad_channel:
  "channel < 0 \<or> int (length (leds ws)) \<le> channel \<Longrightarrow> Leds ws channel = Inl IndexOutOfRange"
  by (auto simp: Leds_def index_def)

lemma SetLedsSync_bad_channel:
  assumes "derefOption h (options ws) = Some opt"
    and "channel < 0 \<or> int (length (leds ws)) \<le> channel"
  shows "SetLedsSync h ws now channel new = Inl IndexOutOfRange"
proof (cases "elems (Channels opt) = []")
  case True
  then have "Wait h ws now = Inl IndexOutOfRange"
    using assms(1) by (simp add: Wait_panics)
  then show ?thesis by (rule SetLedsSync_Wait_panic)
next
  case False
  obtain t where w: "Wait h ws now = Inr (t, None)"
    using Wait_ok [OF assms(1) False] by blast
  have "index (leds ws) channel = Inl IndexOutOfRange"
    using assms(2) by (auto simp: index_def)
  then show ?thesis using w by (simp add: SetLedsSync_after_Wait)
qed

lemma SetLedsSync_nil_slot:
  assumes "Wait h ws now = Inr (t, None)" and "0 \<le> channel"
    and "channel < int (length (leds ws))" and "leds ws ! nat channel = None"
  shows "SetLedsSync h ws now channel new =
           Inr (ws, t, if elems new = [] then None else Some TooManyLEDs)"
proof -
  have idx: "index (leds ws) channel = Inr None"
    using assms(2-4) by (simp add: index_def)
  show ?thesis
  proof (cases "elems new = []")
    case True
    have "set_loop 0 0 [] channel (leds ws) = Inr (leds ws)"
      by (subst set_loop.simps) simp
    then show ?thesis using True idx assms(1) by (simp add: SetLedsSync_after_Wait elems_def)
  next
    case False
    then show ?thesis using idx assms(1) by (simp add: SetLedsSync_after_Wait elems_def)
  qed
qed

text \<open>
  Claim C2, as amended. No \<^verbatim>\<open>ChannelIndexOutOfRange\<close> error exists. Let the device be in
  use: its options are not \<^verbatim>\<open>nil\<close> and its \<^verbatim>\<open>leds\<close> have the shape \<^verbatim>\<open>Init\<close> leaves. A
  channel index outside the \<^verbatim>\<open>RpiPwmChannels\<close> allocated slots makes both \<^verbatim>\<open>Leds\<close> and
  \<^verbatim>\<open>SetLedsSync\<close> panic with an index out of range. For a slot that is allocated but not
  configured, \<^verbatim>\<open>Leds\<close> returns the \<^verbatim>\<open>nil\<close> slice; \<^verbatim>\<open>SetLedsSync\<close> panics with an index
  out of range, in \<^verbatim>\<open>Wait\<close> at \<^verbatim>\<open>Channels[0]\<close>, when the options configure no channel at
  all, and otherwise returns "Too many LEDs" for a non-empty write and \<^verbatim>\<open>nil\<close> for an
  empty one, the device unchanged.
\<close>

theorem channel_outside_configured_range:
  assumes "ready h ws" and "derefOption h (options ws) = Some opt"
  shows "(channel < 0 \<or> int RpiPwmChannels \<le> channel \<longrightarrow>
            Leds ws channel = Inl IndexOutOfRange \<and>
            SetLedsSync h ws now channel new = Inl IndexOutOfRange) \<and>
         (int (length (elems (Channels opt))) \<le> channel \<and> channel < int RpiPwmChannels \<longrightarrow>
            Leds ws channel = Inr None \<and>
            (if elems (Channels opt) = []
             then SetLedsSync h ws now channel new = Inl IndexOutOfRange
             else \<exists>t. SetLedsSync h ws now channel new =
                        Inr (ws, t, if elems new = [] then None else Some TooManyLEDs)))"
proof (intro conjI impI)
  let ?cs = "elems (Channels opt)"
  have len: "length (leds ws) = RpiPwmChannels" using readyD(1) [OF assms] .
  {
    assume "channel < 0 \<or> int RpiPwmChannels \<le> channel"
    then have bad: "channel < 0 \<or> int (length (leds ws)) \<le> channel" using len by simp
    show "Leds ws channel = Inl IndexOutOfRange" using bad by (rule Leds_bad_channel)
    show "SetLedsSync h ws now channel new = Inl IndexOutOfRange"
      using assms(2) bad by (rule SetLedsSync_bad_channel)
  }
  {
    assume unconf: "int (length ?cs) \<le> channel \<and> channel < int RpiPwmChannels"
    then have c0: "0 \<le> channel" and c1: "channel < int (length (leds ws))"
      using len by simp_all
    have none: "leds ws ! nat channel = None"
      using readyD(4) [OF assms, of "nat channel"] unconf by (simp add: le_nat_iff nat_less_iff c0)
    show "Leds ws channel = Inr None"
      using c0 c1 none by (simp add: Leds_def index_def)
    show "if ?cs = []
          then SetLedsSync h ws now channel new = Inl IndexOutOfRange
          else \<exists>t. SetLedsSync h ws now channel new =
                     Inr (ws, t, if elems new = [] then None else Some TooManyLEDs)"
    proof (cases "?cs = []")
      case True
      then have "Wait h ws now = Inl IndexOutOfRange"
        using assms(2) by (simp add: Wait_panics)
      then have "SetLedsSync h ws now channel new = Inl IndexOutOfRange"
        by (rule SetLedsSync_Wait_panic)
      then show ?thesis using True by simp
    next
      case False
      obtain t where w: "Wait h ws now = Inr (t, None)"
        using Wait_ok [OF assms(2) False] by blast
      have "\<exists>t. SetLedsSync h ws now channel new =
                  Inr (ws, t, if elems new = [] then None else Some TooManyLEDs)"
        using SetLedsSync_nil_slot [OF w c0 c1 none] by blast
      then show ?thesis using False by simp
    qed
  }
qed

lemma readyDevice_leds: "leds (readyDevice s) = [Some (replicate 16 0), None]"
  by (simp add: readyDevice_def)

text \<open>
  Claim C2 as stated fails on the default device, which has one configured channel: channel
  5 crashes both calls, and \<^verbatim>\<open>Leds\<close> of channel 1 returns the \<^verbatim>\<open>nil\<close> slice without any
  error.
\<close>

theorem channel_outside_configured_range_counterexample:
  "Leds (readyDevice 0) 5 = Inl IndexOutOfRange \<and>
   SetLedsSync (fst (defaultDevice 0)) (readyDevice 0) 0 5 (Some [1]) = Inl IndexOutOfRange \<and>
   Leds (readyDevice 0) 1 = Inr None"
proof -
  have "Leds (readyDevice 0) 5 = Inl IndexOutOfRange"
    by (rule Leds_bad_channel) (simp add: readyDevice_leds)
  moreover have "SetLedsSync (fst (defaultDevice 0)) (readyDevice 0) 0 5 (Some [1]) = Inl IndexOutOfRange"
    by (rule SetLedsSync_bad_channel [OF readyDevice_options]) (simp add: readyDevice_leds)
  moreover have "Leds (readyDevice 0) 1 = Inr None"
    by (simp add: Leds_def index_def readyDevice_leds)
  ultimately show ?thesis by simp
qed

lemma noChannelDevice_ws:
  "snd noChannelDevice =
     \<lparr>initialized = False, options = Some 3, leds = [], hub = emptyHub, lastRender = 0\<rparr>"
  by (simp add: noChannelDevice_def copy_defs heap_defs)

lemma noChannelDevice_options:
  "derefOption (fst noChannelDevice) (Some 3) =
     Some \<lparr>RenderWaitTime = 0, Frequency = 800000, Channels = Some []\<rparr>"
  by (simp add: noChannelDevice_def copy_defs heap_defs deref_defs)

lemma Init_noChannelDevice:
  "Init (fst noChannelDevice) (snd noChannelDevice) =
     Inr ((snd noChannelDevice)\<lparr>leds := [None, None]\<rparr>, None)"
  by (simp add: Init_def noChannelDevice_ws noChannelDevice_options elems_def slots_None)

text \<open>
  The default device at channel 2 (not allocated) and at channel 1 (allocated, not
  configured); the device made from options without a channel, after its \<^verbatim>\<open>Init\<close>, at
  channel 0.
\<close>

theorem channel_outside_configured_range_witness:
  "Leds (readyDevice 0) 2 = Inl IndexOutOfRange \<and>
   SetLedsSync (fst (defaultDevice 0)) (readyDevice 0) 0 2 (Some [7]) = Inl IndexOutOfRange \<and>
   Leds (readyDevice 0) 1 = Inr None \<and>
   (\<exists>t. SetLedsSync (fst (defaultDevice 0)) (readyDevice 0) 0 1 (Some [7]) =
          Inr (readyDevice 0, t, Some TooManyLEDs)) \<and>
   Leds ((snd noChannelDevice)\<lparr>leds := [None, None]\<rparr>) 0 = Inr None \<and>
   SetLedsSync (fst noChannelDevice) ((snd noChannelDevice)\<lparr>leds := [None, None]\<rparr>) 0 0
       (Some [7]) = Inl IndexOutOfRange"
proof -
  note T = channel_outside_configured_range [OF readyDevice_ready readyDevice_options]
  let ?ws = "(snd noChannelDevice)\<lparr>leds := [None, None]\<rparr>"
  have r: "ready (fst noChannelDevice) ?ws"
    using Init_ready [OF _ Init_noChannelDevice] by (simp add: noChannelDevice_ws)
  have o: "derefOption (fst noChannelDevice) (options ?ws) =
      Some \<lparr>RenderWaitTime = 0, Frequency = 800000, Channels = Some []\<rparr>"
    by (simp add: noChannelDevice_ws noChannelDevice_options)
  have "Leds (readyDevice 0) 2 = Inl IndexOutOfRange \<and>
        SetLedsSync (fst (defaultDevice 0)) (readyDevice 0) 0 2 (Some [7]) = Inl IndexOutOfRange"
    using T [of 2 0 0 "Some [7]"] by (simp add: RpiPwmChannels_def)
  moreover have "Leds (readyDevice 0) 1 = Inr None \<and>
   (\<exists>t. SetLedsSync (fst (defaultDevice 0)) (readyDevice 0) 0 1 (Some [7]) =
          Inr (readyDevice 0, t, Some TooManyLEDs))"
    using T [of 1 0 0 "Some [7]"] by (simp add: RpiPwmChannels_def elems_def)
  moreover have "Leds ?ws 0 = Inr None \<and>
      SetLedsSync (fst noChannelDevice) ?ws 0 0 (Some [7]) = Inl IndexOutOfRange"
    using channel_outside_configured_range [OF r o, of 0 0 "Some [7]"]
    by (simp add: RpiPwmChannels_def elems_def)
  ultimately show ?thesis by simp
qed

section \<open>\<^verbatim>\<open>Render\<close>: the published frame\<close>

lemma Render_after_Wait:
  "Wait h ws now = Inr (t, None) \<Longrightarrow> derefOption h (options ws) = Some opt \<Longrightarrow>
   Render h blocked ws now =
     (case index (elems (Channels opt)) 0 of
        Inl p \<Rightarrow> Inl p
      | Inr c \<Rightarrow>
          (case index (leds ws) 0 of
             Inl p \<Rightarrow> Inl p
           | Inr l \<Rightarrow>
               (case hub ws of
                  None \<Rightarrow> Inl NilDereference
                | Some hb \<Rightarrow>
                    Inr (ws\<lparr>hub := Some (hb\<lparr>broadcast := broadcast hb @ [Marshal c l]\<rparr>),
                            lastRender := t + int blocked\<rparr>,
                         t + int blocked, None))))"
  by (simp add: Render_def Let_def split: sum.splits option.splits)

lemma Render_Wait_panic: "Wait h ws now = Inl p \<Longrightarrow> Render h blocked ws now = Inl p"
  by (simp add: Render_def)

lemma Render_returns:
  assumes "Render h blocked ws now = Inr (ws', t', e)"
  shows "\<exists>t opt hb.
           Wait h ws now = Inr (t, None) \<and> derefOption h (options ws) = Some opt \<and>
           elems (Channels opt) \<noteq> [] \<and> leds ws \<noteq> [] \<and> hub ws = Some hb \<and>
           e = None \<and> t' = t + int blocked \<and>
           ws' = ws\<lparr>hub := Some (hb\<lparr>broadcast := broadcast hb
                                     @ [Marshal (elems (Channels opt) ! 0) (leds ws ! 0)]\<rparr>),
                    lastRender := t + int blocked\<rparr>"
proof -
  obtain t where w: "Wait h ws now = Inr (t, None)"
    using assms by (cases rule: Wait_cases [of h ws now]) (simp_all add: Render_Wait_panic)
  obtain opt where o: "derefOption h (options ws) = Some opt" and ne: "elems (Channels opt) \<noteq> []"
    using Wait_result [OF w] by blast
  note R = Render_after_Wait [OF w o, of blocked]
  have c: "index (elems (Channels opt)) 0 = Inr (elems (Channels opt) ! 0)"
    using ne by (simp add: index_def)
  have l: "index (leds ws) 0 = Inr (leds ws ! 0)" and lne: "leds ws \<noteq> []"
    using assms R c by (auto simp: index_def split: if_splits)
  obtain hb where hb: "hub ws = Some hb"
    using assms R c l by (cases "hub ws") simp_all
  show ?thesis using assms R c l hb w o ne lne by auto
qed

lemma Render_ok:
  assumes "derefOption h (options ws) = Some opt" and "elems (Channels opt) \<noteq> []"
    and "leds ws \<noteq> []" and "hub ws = Some hb"
  shows "\<exists>t. Wait h ws now = Inr (t, None) \<and>
             Render h blocked ws now =
               Inr (ws\<lparr>hub := Some (hb\<lparr>broadcast := broadcast hb
                                     @ [Marshal (elems (Channels opt) ! 0) (leds ws ! 0)]\<rparr>),
                       lastRender := t + int blocked\<rparr>,
                    t + int blocked, None)"
proof -
  obtain t where w: "Wait h ws now = Inr (t, None)"
    using Wait_ok [OF assms(1,2)] by blast
  show ?thesis
    using Render_after_Wait [OF w assms(1), of blocked] assms(2-4) w
    by (simp add: index_def)
qed

text \<open>
  The text of a frame determines the frame: the decimal numerals, the base64 text of the
  gamma table and the list of LED values can each be read back, so two frames with the
  same text have the same channel configuration and the same LED values.
\<close>

lemma split_at:
  assumes "\<forall>x\<in>set a. x \<in> D" and "\<forall>x\<in>set a'. x \<in> D" and "y \<notin> D" and "y' \<notin> D"
    and "a @ y # r = a' @ y' # r'"
  shows "a = a' \<and> y = y' \<and> r = r'"
  using assms
proof (induction a arbitrary: a')
  case Nil
  then show ?case by (cases a') auto
next
  case (Cons x a)
  then show ?case by (cases a') auto
qed

lemma digit_inj:
  "i < 10 \<Longrightarrow> j < 10 \<Longrightarrow> ''0123456789'' ! i = ''0123456789'' ! j \<Longrightarrow> i = j"
  using nth_eq_iff_index_eq [of "''0123456789''" i j] by simp

lemma digit_mem: "k < 10 \<Longrightarrow> ''0123456789'' ! k \<in> set ''0123456789''"
  by (rule nth_mem) simp

lemma show_nat_unfold:
  "show_nat n = (if n < 10 then [] else show_nat (n div 10)) @ [''0123456789'' ! (n mod 10)]"
  by (subst show_nat.simps) (simp del: show_nat.simps)

lemma show_nat_digits: "set (show_nat n) \<subseteq> set ''0123456789''"
proof (induction n rule: show_nat.induct)
  case (1 n)
  have "''0123456789'' ! (n mod 10) \<in> set ''0123456789''" by (rule digit_mem) simp
  then show ?case using 1 by (subst show_nat_unfold) (simp del: show_nat.simps)
qed

lemma show_nat_nonempty: "show_nat n \<noteq> []"
  by (subst show_nat_unfold) (simp del: show_nat.simps)

lemma show_nat_inj: "show_nat n = show_nat m \<Longrightarrow> n = m"
proof (induction n arbitrary: m rule: show_nat.induct)
  case (1 n)
  have e: "(if n < 10 then [] else show_nat (n div 10)) @ [''0123456789'' ! (n mod 10)] =
           (if m < 10 then [] else show_nat (m div 10)) @ [''0123456789'' ! (m mod 10)]"
    using "1.prems" show_nat_unfold [of n] show_nat_unfold [of m] by simp
  then have d: "''0123456789'' ! (n mod 10) = ''0123456789'' ! (m mod 10)"
    and r: "(if n < 10 then [] else show_nat (n div 10)) =
            (if m < 10 then [] else show_nat (m div 10))"
    by simp_all
  have md: "n mod 10 = m mod 10" by (rule digit_inj [OF _ _ d]) simp_all
  have dv: "n div 10 = m div 10"
  proof (cases "n < 10")
    case True
    then have "m < 10" using r show_nat_nonempty [of "m div 10"] by (auto split: if_splits)
    then show ?thesis using True by simp
  next
    case False
    then have m: "\<not> m < 10" using r show_nat_nonempty [of "n div 10"] by (auto split: if_splits)
    then have "show_nat (n div 10) = show_nat (m div 10)" using r False by simp
    then show ?thesis using "1.IH" False by blast
  qed
  have "n = 10 * (n div 10) + n mod 10" by simp
  also have "\<dots> = 10 * (m div 10) + m mod 10" using md dv by simp
  finally show ?case by simp
qed

lemma show_int_chars: "set (show_int i) \<subseteq> set ''-0123456789''"
proof -
  have "set (show_nat n) \<subseteq> set ''-0123456789''" for n
    using show_nat_digits [of n] by (simp add: subset_insertI2 del: show_nat.simps)
  then show ?thesis by (simp add: show_int_def del: show_nat.simps)
qed

lemma show_int_inj: "show_int i = show_int j \<Longrightarrow> i = j"
proof -
  assume e: "show_int i = show_int j"
  have nohead: "CHR ''-'' # s \<noteq> show_nat n" for n s
  proof
    assume "CHR ''-'' # s = show_nat n"
    then have "CHR ''-'' \<in> set (show_nat n)" by (metis list.set_intros(1))
    then show False using show_nat_digits [of n] by auto
  qed
  show ?thesis
  proof (cases "i < 0")
    case i: True
    show ?thesis
    proof (cases "j < 0")
      case True
      then have "nat (- i) = nat (- j)" using e i
        by (auto simp add: show_int_def simp del: show_nat.simps dest: show_nat_inj)
      then show ?thesis using i True by simp
    next
      case False
      then show ?thesis using e i nohead [of "show_nat (nat (- i))" "nat j"]
        by (simp add: show_int_def del: show_nat.simps)
    qed
  next
    case i: False
    show ?thesis
    proof (cases "j < 0")
      case True
      then show ?thesis using e i nohead [of "show_nat (nat (- j))" "nat i"]
        by (simp add: show_int_def del: show_nat.simps)
    next
      case False
      then have "nat i = nat j" using e i
        by (auto simp add: show_int_def simp del: show_nat.simps dest: show_nat_inj)
      then show ?thesis using i False by simp
    qed
  qed
qed

lemma b64_char_inj: "b64_char n = b64_char m \<Longrightarrow> n mod 64 = m mod 64"
  unfolding b64_char_def
  using nth_eq_iff_index_eq
    [of "''ABCDEFGHIJKLMNOPQRSTUVWXYZabcdefghijklmnopqrstuvwxyz0123456789+/''"
       "n mod 64" "m mod 64"]
  by simp

lemma b64_char_mem:
  "b64_char n \<in> set ''ABCDEFGHIJKLMNOPQRSTUVWXYZabcdefghijklmnopqrstuvwxyz0123456789+/''"
  unfolding b64_char_def by (rule nth_mem) simp

lemma b64_char_pad: "b64_char n \<noteq> CHR ''=''"
  using b64_char_mem [of n] by auto

lemma base64_chars:
  "set (base64 bs) \<subseteq>
     set ''ABCDEFGHIJKLMNOPQRSTUVWXYZabcdefghijklmnopqrstuvwxyz0123456789+/=''"
proof (induction bs rule: base64.induct)
  case 1
  then show ?case by simp
next
  case (2 a)
  show ?case using b64_char_mem by (auto simp: Let_def)
next
  case (3 a b)
  show ?case using b64_char_mem by (auto simp: Let_def)
next
  case (4 a b c bs)
  then show ?case using b64_char_mem by (auto simp: Let_def)
qed

lemma sextet_step: "x div 64 = y div 64 \<Longrightarrow> x mod 64 = y mod 64 \<Longrightarrow> x = y" for x y :: nat
  by (metis div_mult_mod_eq)

lemma sextet_top: "n < 16777216 \<Longrightarrow> n div 262144 < (64::nat)"
  by (simp add: less_mult_imp_div_less)

lemma sextet_div2: "(n::nat) div 4096 div 64 = n div 262144"
  by (simp add: div_mult2_eq [symmetric])

lemma sextet_div1: "(n::nat) div 64 div 64 = n div 4096"
  by (simp add: div_mult2_eq [symmetric])

lemma sextets:
  fixes n m :: nat
  assumes "n < 16777216" and "m < 16777216"
    and "(n div 262144) mod 64 = (m div 262144) mod 64"
    and "(n div 4096) mod 64 = (m div 4096) mod 64"
    and "(n div 64) mod 64 = (m div 64) mod 64"
    and "n mod 64 = m mod 64"
  shows "n = m"
proof -
  have a: "n div 262144 = m div 262144" using assms(3) sextet_top [OF assms(1)] sextet_top [OF assms(2)] by simp
  have b: "n div 4096 = m div 4096"
  proof (rule sextet_step)
    show "n div 4096 div 64 = m div 4096 div 64" unfolding sextet_div2 by (rule a)
    show "n div 4096 mod 64 = m div 4096 mod 64" by (rule assms(4))
  qed
  have c: "n div 64 = m div 64"
  proof (rule sextet_step)
    show "n div 64 div 64 = m div 64 div 64" unfolding sextet_div1 by (rule b)
    show "n div 64 mod 64 = m div 64 mod 64" by (rule assms(5))
  qed
  show ?thesis using c assms(6) by (rule sextet_step)
qed

lemma quot_rem_unique:
  fixes q r q' r' k :: nat
  assumes "q * k + r = q' * k + r'" and "r < k" and "r' < k"
  shows "q = q' \<and> r = r'"
proof -
  have "(q * k + r) div k = q" "(q * k + r) mod k = r" using assms(2) by simp_all
  moreover have "(q' * k + r') div k = q'" "(q' * k + r') mod k = r'" using assms(3) by simp_all
  ultimately show ?thesis using assms(1) by metis
qed

lemma bytes3:
  fixes a b c a' b' c' :: nat
  assumes "a * 65536 + b * 256 + c = a' * 65536 + b' * 256 + c'"
    and "b < 256" "c < 256" "b' < 256" "c' < 256"
  shows "a = a' \<and> b = b' \<and> c = c'"
proof -
  have "(a * 256 + b) * 256 + c = (a' * 256 + b') * 256 + c'" using assms(1) by simp
  then have 1: "a * 256 + b = a' * 256 + b'" and 2: "c = c'"
    using quot_rem_unique [of "a * 256 + b" 256 c "a' * 256 + b'" c'] assms(3,5) by blast+
  show ?thesis using quot_rem_unique [OF 1 assms(2,4)] 2 by simp
qed


lemma unat_inj: "unat a = unat b \<Longrightarrow> a = b"
  by (simp add: word_unat_eq_iff)

lemma unat_byte: "unat (a :: byte) < 256"
  using unsigned_less [of a, where ?'a = nat] by simp

lemma bound3:
  "x < 256 \<Longrightarrow> y < 256 \<Longrightarrow> z < 256 \<Longrightarrow> x * 65536 + y * 256 + z < (16777216::nat)"
  by linarith

lemma low1: "(x * 65536) div 64 mod 64 = (0::nat)"
proof -
  have "x * 65536 = (x * 1024) * 64" by simp
  then have "(x * 65536) div 64 = x * 16 * 64" by simp
  then show ?thesis by simp
qed

lemma low0: "(x * 65536 + y * 256) mod 64 = (0::nat)"
proof -
  have "x * 65536 + y * 256 = (x * 1024 + y * 4) * 64" by simp
  then show ?thesis by simp
qed

lemma base64_1:
  assumes "b64_char (unat a * 65536 div 262144) = b64_char (unat a' * 65536 div 262144)"
    and "b64_char (unat a * 65536 div 4096) = b64_char (unat a' * 65536 div 4096)"
  shows "a = (a' :: byte)"
proof -
  have "unat a * 65536 = unat a' * 65536"
  proof (rule sextets)
    show "unat a * 65536 < 16777216" using bound3 [OF unat_byte [of a], of 0 0] by simp
    show "unat a' * 65536 < 16777216" using bound3 [OF unat_byte [of a'], of 0 0] by simp
    show "unat a * 65536 div 262144 mod 64 = unat a' * 65536 div 262144 mod 64"
      using assms(1) by (rule b64_char_inj)
    show "unat a * 65536 div 4096 mod 64 = unat a' * 65536 div 4096 mod 64"
      using assms(2) by (rule b64_char_inj)
    show "unat a * 65536 div 64 mod 64 = unat a' * 65536 div 64 mod 64"
      unfolding low1 by (rule refl)
    show "unat a * 65536 mod 64 = unat a' * 65536 mod 64"
      using low0 [of "unat a" 0] low0 [of "unat a'" 0] by simp
  qed
  then show ?thesis by (simp add: unat_inj)
qed

lemma base64_2:
  assumes "b64_char ((unat a * 65536 + unat b * 256) div 262144)
             = b64_char ((unat a' * 65536 + unat b' * 256) div 262144)"
    and "b64_char ((unat a * 65536 + unat b * 256) div 4096)
             = b64_char ((unat a' * 65536 + unat b' * 256) div 4096)"
    and "b64_char ((unat a * 65536 + unat b * 256) div 64)
             = b64_char ((unat a' * 65536 + unat b' * 256) div 64)"
  shows "a = (a' :: byte) \<and> b = (b' :: byte)"
proof -
  have "unat a * 65536 + unat b * 256 = unat a' * 65536 + unat b' * 256"
  proof (rule sextets)
    show "unat a * 65536 + unat b * 256 < 16777216"
      using bound3 [OF unat_byte [of a] unat_byte [of b], of 0] by simp
    show "unat a' * 65536 + unat b' * 256 < 16777216"
      using bound3 [OF unat_byte [of a'] unat_byte [of b'], of 0] by simp
    show "(unat a * 65536 + unat b * 256) div 262144 mod 64
          = (unat a' * 65536 + unat b' * 256) div 262144 mod 64"
      using assms(1) by (rule b64_char_inj)
    show "(unat a * 65536 + unat b * 256) div 4096 mod 64
          = (unat a' * 65536 + unat b' * 256) div 4096 mod 64"
      using assms(2) by (rule b64_char_inj)
    show "(unat a * 65536 + unat b * 256) div 64 mod 64
          = (unat a' * 65536 + unat b' * 256) div 64 mod 64"
      using assms(3) by (rule b64_char_inj)
    show "(unat a * 65536 + unat b * 256) mod 64 = (unat a' * 65536 + unat b' * 256) mod 64"
      unfolding low0 by (rule refl)
  qed
  then have "unat a * 65536 + unat b * 256 + 0 = unat a' * 65536 + unat b' * 256 + 0"
    by simp
  then have "unat a = unat a' \<and> unat b = unat b' \<and> (0::nat) = 0"
    using unat_byte [of b] unat_byte [of b'] by (intro bytes3) simp_all
  then show ?thesis by (simp add: unat_inj)
qed

lemma base64_3:
  assumes "b64_char ((unat a * 65536 + unat b * 256 + unat c) div 262144)
             = b64_char ((unat a' * 65536 + unat b' * 256 + unat c') div 262144)"
    and "b64_char ((unat a * 65536 + unat b * 256 + unat c) div 4096)
             = b64_char ((unat a' * 65536 + unat b' * 256 + unat c') div 4096)"
    and "b64_char ((unat a * 65536 + unat b * 256 + unat c) div 64)
             = b64_char ((unat a' * 65536 + unat b' * 256 + unat c') div 64)"
    and "b64_char (unat a * 65536 + unat b * 256 + unat c)
             = b64_char (unat a' * 65536 + unat b' * 256 + unat c')"
  shows "a = (a' :: byte) \<and> b = (b' :: byte) \<and> c = (c' :: byte)"
proof -
  have "unat a * 65536 + unat b * 256 + unat c = unat a' * 65536 + unat b' * 256 + unat c'"
  proof (rule sextets)
    show "unat a * 65536 + unat b * 256 + unat c < 16777216"
      by (rule bound3 [OF unat_byte unat_byte unat_byte])
    show "unat a' * 65536 + unat b' * 256 + unat c' < 16777216"
      by (rule bound3 [OF unat_byte unat_byte unat_byte])
    show "(unat a * 65536 + unat b * 256 + unat c) div 262144 mod 64
          = (unat a' * 65536 + unat b' * 256 + unat c') div 262144 mod 64"
      using assms(1) by (rule b64_char_inj)
    show "(unat a * 65536 + unat b * 256 + unat c) div 4096 mod 64
          = (unat a' * 65536 + unat b' * 256 + unat c') div 4096 mod 64"
      using assms(2) by (rule b64_char_inj)
    show "(unat a * 65536 + unat b * 256 + unat c) div 64 mod 64
          = (unat a' * 65536 + unat b' * 256 + unat c') div 64 mod 64"
      using assms(3) by (rule b64_char_inj)
    show "(unat a * 65536 + unat b * 256 + unat c) mod 64
          = (unat a' * 65536 + unat b' * 256 + unat c') mod 64"
      using assms(4) by (rule b64_char_inj)
  qed
  then have "unat a = unat a' \<and> unat b = unat b' \<and> unat c = unat c'"
    using unat_byte [of b] unat_byte [of b'] unat_byte [of c] unat_byte [of c']
    by (intro bytes3)
  then show ?thesis by (simp add: unat_inj)
qed

lemma b64_char_pad': "CHR ''='' \<noteq> b64_char n"
  using b64_char_pad [of n] by simp

lemmas base64_shape =
  base64.simps Let_def list.inject list.distinct append_Cons append_Nil
  b64_char_pad b64_char_pad' simp_thms

lemma base64_inj: "base64 bs = base64 bs' \<Longrightarrow> bs = bs'"
proof (induction bs arbitrary: bs' rule: base64.induct)
  case 1
  then show ?case by (cases bs' rule: base64.cases) (simp_all only: base64_shape)
next
  case (2 a)
  show ?case
  proof (cases bs' rule: base64.cases)
    case (2 a')
    have "b64_char (unat a * 65536 div 262144) = b64_char (unat a' * 65536 div 262144) \<and>
          b64_char (unat a * 65536 div 4096) = b64_char (unat a' * 65536 div 4096)"
      using "2.prems" unfolding 2 by (simp only: base64_shape)
    then have "a = a'" using base64_1 by blast
    then show ?thesis unfolding 2 by simp
  qed (use "2.prems" in \<open>simp_all only: base64_shape\<close>)
next
  case (3 a b)
  show ?case
  proof (cases bs' rule: base64.cases)
    case (3 a' b')
    have "b64_char ((unat a * 65536 + unat b * 256) div 262144)
             = b64_char ((unat a' * 65536 + unat b' * 256) div 262144) \<and>
          b64_char ((unat a * 65536 + unat b * 256) div 4096)
             = b64_char ((unat a' * 65536 + unat b' * 256) div 4096) \<and>
          b64_char ((unat a * 65536 + unat b * 256) div 64)
             = b64_char ((unat a' * 65536 + unat b' * 256) div 64)"
      using "3.prems" unfolding 3 by (simp only: base64_shape)
    then have "a = a' \<and> b = b'" using base64_2 by blast
    then show ?thesis unfolding 3 by simp
  qed (use "3.prems" in \<open>simp_all only: base64_shape\<close>)
next
  case (4 a b c bs)
  show ?case
  proof (cases bs' rule: base64.cases)
    case (4 a' b' c' bs'')
    have e: "b64_char ((unat a * 65536 + unat b * 256 + unat c) div 262144)
             = b64_char ((unat a' * 65536 + unat b' * 256 + unat c') div 262144) \<and>
          b64_char ((unat a * 65536 + unat b * 256 + unat c) div 4096)
             = b64_char ((unat a' * 65536 + unat b' * 256 + unat c') div 4096) \<and>
          b64_char ((unat a * 65536 + unat b * 256 + unat c) div 64)
             = b64_char ((unat a' * 65536 + unat b' * 256 + unat c') div 64) \<and>
          b64_char (unat a * 65536 + unat b * 256 + unat c)
             = b64_char (unat a' * 65536 + unat b' * 256 + unat c') \<and>
          base64 bs = base64 bs''"
      using "4.prems" unfolding 4 by (simp only: base64_shape)
    then have "bs = bs''" using "4.IH" by blast
    moreover have "a = a' \<and> b = b' \<and> c = c'" using e base64_3 by blast
    ultimately show ?thesis unfolding 4 by simp
  qed (use "4.prems" in \<open>simp_all only: base64_shape\<close>)
qed


lemma commas_unfold: "commas (x # xs) = x @ (if xs = [] then [] else '','' @ commas xs)"
  by (cases xs) simp_all

lemma commas_inj:
  assumes "\<forall>x\<in>set xs. x \<noteq> [] \<and> set x \<subseteq> D" and "\<forall>x\<in>set ys. x \<noteq> [] \<and> set x \<subseteq> D"
    and "CHR '','' \<notin> D" and "t \<notin> D" and "t \<noteq> CHR '',''"
    and "commas xs @ t # r = commas ys @ t # r'"
  shows "xs = ys"
  using assms(1,2,6)
proof (induction xs arbitrary: ys)
  case Nil
  show ?case
  proof (cases ys)
    case (Cons y ys')
    then obtain d y' where y: "y = d # y'" "d \<in> D" using Nil.prems(2) by (cases y) auto
    then have "t = d" using Nil.prems(3) unfolding Cons commas_unfold by simp
    then show ?thesis using y assms(4) by simp
  qed simp
next
  case (Cons x xs)
  have x: "\<forall>c\<in>set x. c \<in> D" using Cons.prems(1) by auto
  show ?case
  proof (cases ys)
    case Nil
    obtain d x' where d: "x = d # x'" "d \<in> D" using Cons.prems(1) by (cases x) auto
    then have "d = t" using Cons.prems(3) unfolding Nil commas_unfold by simp
    then show ?thesis using d assms(4) by simp
  next
    case ys: (Cons y ys')
    have y: "\<forall>c\<in>set y. c \<in> D" using Cons.prems(2) ys by auto
    let ?R = "if xs = [] then t # r else CHR '','' # commas xs @ t # r"
    let ?R' = "if ys' = [] then t # r' else CHR '','' # commas ys' @ t # r'"
    have e: "x @ ?R = y @ ?R'"
      using Cons.prems(3) unfolding ys commas_unfold by (simp split: if_splits)
    show ?thesis
    proof (cases "xs = []")
      case True
      show ?thesis
      proof (cases "ys' = []")
        case y0: True
        then have "x = y" using e True split_at [OF x y assms(4) assms(4), of r r'] by simp
        then show ?thesis using True y0 ys by simp
      next
        case False
        then have "t = CHR '',''"
          using e True split_at [OF x y assms(4) assms(3), of r "commas ys' @ t # r'"] by simp
        then show ?thesis using assms(5) by simp
      qed
    next
      case False
      show ?thesis
      proof (cases "ys' = []")
        case True
        then have "CHR '','' = t"
          using e False split_at [OF x y assms(3) assms(4), of "commas xs @ t # r" r'] by simp
        then show ?thesis using assms(5) by simp
      next
        case y1: False
        have "x = y \<and> commas xs @ t # r = commas ys' @ t # r'"
          using e False y1
            split_at [OF x y assms(3) assms(3), of "commas xs @ t # r" "commas ys' @ t # r'"]
          by simp
        moreover have "xs = ys'" using Cons.IH [of ys'] Cons.prems(1,2) calculation ys by simp
        ultimately show ?thesis using ys by simp
      qed
    qed
  qed
qed

lemma int_field:
  assumes "show_int i @ CHR '','' # r = show_int j @ CHR '','' # r'"
  shows "i = j \<and> r = r'"
proof -
  have "show_int i = show_int j \<and> CHR '','' = CHR '','' \<and> r = r'"
  proof (rule split_at [of _ "set ''-0123456789''"])
    show "\<forall>x\<in>set (show_int i). x \<in> set ''-0123456789''" using show_int_chars [of i] by blast
    show "\<forall>x\<in>set (show_int j). x \<in> set ''-0123456789''" using show_int_chars [of j] by blast
    show "show_int i @ CHR '','' # r = show_int j @ CHR '','' # r'" by (rule assms)
  qed simp_all
  then show ?thesis using show_int_inj by blast
qed

lemma bytes_field:
  assumes "json_bytes g @ CHR ''}'' # r = json_bytes g' @ CHR ''}'' # r'"
  shows "g = g' \<and> r = r'"
proof (cases g)
  case None
  then show ?thesis using assms by (cases g') (simp_all add: json_bytes_def quoted_def)
next
  case (Some bs)
  show ?thesis
  proof (cases g')
    case None
    then show ?thesis using assms Some by (simp add: json_bytes_def quoted_def)
  next
    case g': (Some bs')
    have e: "base64 bs @ CHR 0x22 # CHR ''}'' # r = base64 bs' @ CHR 0x22 # CHR ''}'' # r'"
      using assms Some g' by (simp add: json_bytes_def quoted_def)
    have "base64 bs = base64 bs' \<and> CHR 0x22 = CHR 0x22 \<and> CHR ''}'' # r = CHR ''}'' # r'"
    proof (rule split_at
          [of _ "set ''ABCDEFGHIJKLMNOPQRSTUVWXYZabcdefghijklmnopqrstuvwxyz0123456789+/=''"])
      show "\<forall>x\<in>set (base64 bs).
          x \<in> set ''ABCDEFGHIJKLMNOPQRSTUVWXYZabcdefghijklmnopqrstuvwxyz0123456789+/=''"
        using base64_chars [of bs] by blast
      show "\<forall>x\<in>set (base64 bs').
          x \<in> set ''ABCDEFGHIJKLMNOPQRSTUVWXYZabcdefghijklmnopqrstuvwxyz0123456789+/=''"
        using base64_chars [of bs'] by blast
      show "base64 bs @ CHR 0x22 # CHR ''}'' # r = base64 bs' @ CHR 0x22 # CHR ''}'' # r'"
        by (rule e)
    qed simp_all
    then show ?thesis using base64_inj Some g' by auto
  qed
qed

lemma leds_field:
  fixes l l' :: "'a :: len word list"
  assumes "commas (map (\<lambda>x. show_nat (unat x)) l) @ CHR '']'' # r =
           commas (map (\<lambda>x. show_nat (unat x)) l') @ CHR '']'' # r'"
  shows "l = l'"
proof -
  have d: "\<forall>x\<in>set (map (\<lambda>x. show_nat (unat x)) k). x \<noteq> [] \<and> set x \<subseteq> set ''0123456789''"
    for k :: "'a :: len word list"
    using show_nat_nonempty show_nat_digits by (simp del: show_nat.simps)
  have "map (\<lambda>x. show_nat (unat x)) l = map (\<lambda>x. show_nat (unat x)) l'"
  proof (rule commas_inj [of _ "set ''0123456789''" _ "CHR '']''" r r'])
    show "\<forall>x\<in>set (map (\<lambda>x. show_nat (unat x)) l). x \<noteq> [] \<and> set x \<subseteq> set ''0123456789''"
      by (rule d)
    show "\<forall>x\<in>set (map (\<lambda>x. show_nat (unat x)) l'). x \<noteq> [] \<and> set x \<subseteq> set ''0123456789''"
      by (rule d)
    show "commas (map (\<lambda>x. show_nat (unat x)) l) @ CHR '']'' # r =
           commas (map (\<lambda>x. show_nat (unat x)) l') @ CHR '']'' # r'" by (rule assms)
  qed simp_all
  moreover have "inj (\<lambda>x :: 'a word. show_nat (unat x))"
    by (rule injI) (blast dest: show_nat_inj unat_inj)
  ultimately show ?thesis by (simp add: inj_map_eq_map)
qed

lemma leds_text:
  fixes l l' :: "'a :: len word list"
  assumes "commas (map (\<lambda>x. show_nat (unat x)) l) = commas (map (\<lambda>x. show_nat (unat x)) l')"
  shows "l = l'"
  using leds_field [of l "[]" l' "[]"] assms by simp

lemma Marshal_fields:
  \<open>Marshal c (Some l) =
     ''{"option":{"LedCount":'' @ show_int (LedCount c)
       @ '',"StripeType":'' @ show_int (StripeType c)
       @ '',"Brightness":'' @ show_int (Brightness c)
       @ '',"WShift":'' @ show_int (WShift c)
       @ '',"RShift":'' @ show_int (RShift c)
       @ '',"GShift":'' @ show_int (GShift c)
       @ '',"BShift":'' @ show_int (BShift c)
       @ '',"Gamma":'' @ (case Gamma c of None \<Rightarrow> ''null'' | Some g \<Rightarrow> ''"'' @ base64 g @ ''"'')
       @ ''},"leds":['' @ commas (map (\<lambda>x. show_nat (unat x)) l) @ '']}''\<close>
  by (simp add: Marshal_def json_object_def json_field_def json_uint32s_def
      json_ChannelOption_def json_bytes_def quoted_def split: option.splits)

lemma Marshal_inj:
  assumes "Marshal c (Some l) = Marshal c' (Some l')"
  shows "c = c' \<and> l = l'"
proof -
  have "LedCount c = LedCount c' \<and> StripeType c = StripeType c' \<and>
        Brightness c = Brightness c' \<and> WShift c = WShift c' \<and> RShift c = RShift c' \<and>
        GShift c = GShift c' \<and> BShift c = BShift c' \<and> Gamma c = Gamma c' \<and> l = l'"
    using assms
    by (auto simp add: Marshal_def json_object_def json_field_def json_uint32s_def
        json_ChannelOption_def quoted_def simp del: show_nat.simps
        dest!: int_field bytes_field leds_text)
  then show ?thesis by simp
qed

text \<open>
  Claim C6. Let the device be in use: its options are not \<^verbatim>\<open>nil\<close> and its \<^verbatim>\<open>leds\<close> have
  the shape \<^verbatim>\<open>Init\<close> leaves. \<^verbatim>\<open>Render\<close> returns when the options have a channel 0 and the
  hub is not \<^verbatim>\<open>nil\<close>, and every call that returns has returned \<^verbatim>\<open>nil\<close> and has appended
  exactly one message to the hub's \<^verbatim>\<open>broadcast\<close> channel: the JSON object with the field
  "option", the object of the eight fields of channel 0's \<^verbatim>\<open>ChannelOption\<close> (seven
  decimal numbers and the gamma table, in base64 or \<^verbatim>\<open>null\<close>), and the field "leds", the
  array of channel 0's current LED values in decimal, whose length is channel 0's
  \<^verbatim>\<open>LedCount\<close>. No other configuration and no other LED values give the same message.
  The LED buffers and the options are not touched.
\<close>

theorem Render_publishes_channel_0:
  assumes "ready h ws" and "derefOption h (options ws) = Some opt"
  shows \<open>(elems (Channels opt) \<noteq> [] \<and> hub ws \<noteq> None \<longrightarrow>
            (\<exists>ws' t'. Render h blocked ws now = Inr (ws', t', None))) \<and>
         (\<forall>ws' t' e. Render h blocked ws now = Inr (ws', t', e) \<longrightarrow>
            e = None \<and>
            (\<exists>l hb. leds ws ! 0 = Some l \<and>
                    int (length l) = LedCount (elems (Channels opt) ! 0) \<and>
                    hub ws = Some hb \<and>
                    hub ws' = Some (hb\<lparr>broadcast := broadcast hb
                                      @ [Marshal (elems (Channels opt) ! 0) (Some l)]\<rparr>) \<and>
                    Marshal (elems (Channels opt) ! 0) (Some l) =
                      ''{"option":{"LedCount":'' @ show_int (LedCount (elems (Channels opt) ! 0))
                        @ '',"StripeType":'' @ show_int (StripeType (elems (Channels opt) ! 0))
                        @ '',"Brightness":'' @ show_int (Brightness (elems (Channels opt) ! 0))
                        @ '',"WShift":'' @ show_int (WShift (elems (Channels opt) ! 0))
                        @ '',"RShift":'' @ show_int (RShift (elems (Channels opt) ! 0))
                        @ '',"GShift":'' @ show_int (GShift (elems (Channels opt) ! 0))
                        @ '',"BShift":'' @ show_int (BShift (elems (Channels opt) ! 0))
                        @ '',"Gamma":''
                        @ (case Gamma (elems (Channels opt) ! 0) of None \<Rightarrow> ''null''
                           | Some g \<Rightarrow> ''"'' @ base64 g @ ''"'')
                        @ ''},"leds":['' @ commas (map (\<lambda>x. show_nat (unat x)) l) @ '']}'' \<and>
                    (\<forall>c' l'. Marshal c' (Some l') = Marshal (elems (Channels opt) ! 0) (Some l)
                       \<longrightarrow> c' = elems (Channels opt) ! 0 \<and> l' = l) \<and>
                    leds ws' = leds ws \<and> options ws' = options ws))\<close>
proof (intro conjI impI allI)
  let ?cs = "elems (Channels opt)"
  have len: "leds ws \<noteq> []" using readyD(1) [OF assms] by (auto simp: RpiPwmChannels_def)
  {
    assume "?cs \<noteq> [] \<and> hub ws \<noteq> None"
    then obtain hb where "?cs \<noteq> []" "hub ws = Some hb" by auto
    then show "\<exists>ws' t'. Render h blocked ws now = Inr (ws', t', None)"
      using Render_ok [OF assms(2) _ len, of hb now blocked] by blast
  }
  fix ws' t' e
  assume r: "Render h blocked ws now = Inr (ws', t', e)"
  obtain t opt' hb where R: "derefOption h (options ws) = Some opt'" "elems (Channels opt') \<noteq> []"
    "hub ws = Some hb" "e = None"
    "ws' = ws\<lparr>hub := Some (hb\<lparr>broadcast := broadcast hb
                                     @ [Marshal (elems (Channels opt') ! 0) (leds ws ! 0)]\<rparr>),
                    lastRender := t + int blocked\<rparr>"
    using Render_returns [OF r] by blast
  have opt': "opt' = opt" using R(1) assms(2) by simp
  show "e = None" by (rule R)
  obtain l where l: "leds ws ! 0 = Some l" "int (length l) = LedCount (?cs ! 0)"
    using readyD(3) [OF assms, of 0] R(2) opt' by auto
  have h': "hub ws' = Some (hb\<lparr>broadcast := broadcast hb @ [Marshal (?cs ! 0) (Some l)]\<rparr>)"
    and same: "leds ws' = leds ws \<and> options ws' = options ws"
    using l R(5) opt' by simp_all
  have inj: "\<forall>c' l'. Marshal c' (Some l') = Marshal (?cs ! 0) (Some l)
      \<longrightarrow> c' = ?cs ! 0 \<and> l' = l"
    using Marshal_inj by blast
  show \<open>\<exists>l hb. leds ws ! 0 = Some l \<and>
                    int (length l) = LedCount (elems (Channels opt) ! 0) \<and>
                    hub ws = Some hb \<and>
                    hub ws' = Some (hb\<lparr>broadcast := broadcast hb
                                      @ [Marshal (elems (Channels opt) ! 0) (Some l)]\<rparr>) \<and>
                    Marshal (elems (Channels opt) ! 0) (Some l) =
                      ''{"option":{"LedCount":'' @ show_int (LedCount (elems (Channels opt) ! 0))
                        @ '',"StripeType":'' @ show_int (StripeType (elems (Channels opt) ! 0))
                        @ '',"Brightness":'' @ show_int (Brightness (elems (Channels opt) ! 0))
                        @ '',"WShift":'' @ show_int (WShift (elems (Channels opt) ! 0))
                        @ '',"RShift":'' @ show_int (RShift (elems (Channels opt) ! 0))
                        @ '',"GShift":'' @ show_int (GShift (elems (Channels opt) ! 0))
                        @ '',"BShift":'' @ show_int (BShift (elems (Channels opt) ! 0))
                        @ '',"Gamma":''
                        @ (case Gamma (elems (Channels opt) ! 0) of None \<Rightarrow> ''null''
                           | Some g \<Rightarrow> ''"'' @ base64 g @ ''"'')
                        @ ''},"leds":['' @ commas (map (\<lambda>x. show_nat (unat x)) l) @ '']}'' \<and>
                    (\<forall>c' l'. Marshal c' (Some l') = Marshal (elems (Channels opt) ! 0) (Some l)
                       \<longrightarrow> c' = elems (Channels opt) ! 0 \<and> l' = l) \<and>
                    leds ws' = leds ws \<and> options ws' = options ws\<close>
    using l R(3) h' same inj Marshal_fields [of "?cs ! 0" l] by blast
qed

text \<open>
  Claim C7. In every call of \<^verbatim>\<open>Render\<close> that returns, the send on the hub's channel is
  issued at the time \<open>t\<close> at which \<^verbatim>\<open>Wait\<close> returned, the hub has the message when the
  send completes, \<open>blocked\<close> ns later, and \<^verbatim>\<open>lastRender\<close> is the clock reading taken then:
  \<open>t + blocked\<close>, never earlier than the hand-off and later than its issue whenever the
  send took time. Nothing else of the device changes.
\<close>

theorem Render_stamps_after_handoff:
  assumes "Render h blocked ws now = Inr (ws', t', e)"
  shows "\<exists>t hb msg.
           Wait h ws now = Inr (t, None) \<and>
           hub ws = Some hb \<and>
           ws' = (ws\<lparr>hub := Some (hb\<lparr>broadcast := broadcast hb @ [msg]\<rparr>)\<rparr>)
                   \<lparr>lastRender := t + int blocked\<rparr> \<and>
           lastRender ws' = t + int blocked \<and> t' = lastRender ws' \<and>
           t \<le> lastRender ws' \<and> (0 < blocked \<longrightarrow> t < lastRender ws')"
  using Render_returns [OF assms] by auto

lemma readyDevice_hub: "hub (readyDevice s) = Some \<lparr>broadcast = []\<rparr>"
  by (simp add: readyDevice_def defaultDevice_ws emptyHub_def)

lemma Render_default:
  "\<exists>t. Wait (fst (defaultDevice 0)) (readyDevice 0) 0 = Inr (t, None) \<and>
       Render (fst (defaultDevice 0)) 5 (readyDevice 0) 0 =
         Inr ((readyDevice 0)
                \<lparr>hub := Some \<lparr>broadcast =
                    [Marshal \<lparr>LedCount = 16, StripeType = 0, Brightness = 64, WShift = 0,
                              RShift = 0, GShift = 0, BShift = 0, Gamma = None\<rparr>
                       (Some (replicate 16 0))]\<rparr>,
                 lastRender := t + 5\<rparr>, t + 5, None)"
  using Render_ok [OF readyDevice_options _ _ readyDevice_hub, of 0 0 5]
  by (simp add: elems_def readyDevice_leds)

lemma Marshal_default:
  \<open>Marshal \<lparr>LedCount = 16, StripeType = 0, Brightness = 64, WShift = 0,
             RShift = 0, GShift = 0, BShift = 0, Gamma = None\<rparr> (Some (replicate 16 0)) =
   ''{"option":{"LedCount":16,"StripeType":0,"Brightness":64,"WShift":0,"RShift":0,"GShift":0,"BShift":0,"Gamma":null},"leds":[0,0,0,0,0,0,0,0,0,0,0,0,0,0,0,0]}''\<close>
  by code_simp

lemma Marshal_frame:
  \<open>Marshal \<lparr>LedCount = 3, StripeType = 1050624, Brightness = 255, WShift = 24,
            RShift = 16, GShift = 8, BShift = 0, Gamma = Some [0, 127, 255, 16]\<rparr>
       (Some [16711680, 65280, 255]) =
   ''{"option":{"LedCount":3,"StripeType":1050624,"Brightness":255,"WShift":24,"RShift":16,"GShift":8,"BShift":0,"Gamma":"AH//EA=="},"leds":[16711680,65280,255]}''\<close>
  by (simp add: Marshal_fields show_int_def b64_char_def Let_def)

lemma frameDevice_ws:
  "snd frameDevice =
     \<lparr>initialized = False, options = Some 3, leds = [], hub = emptyHub, lastRender = 0\<rparr>"
  by (simp add: frameDevice_def copy_defs heap_defs)

lemma frameDevice_options:
  "derefOption (fst frameDevice) (Some 3) =
     Some \<lparr>RenderWaitTime = 0, Frequency = 800000,
           Channels = Some [\<lparr>LedCount = 3, StripeType = 1050624, Brightness = 255, WShift = 24,
                             RShift = 16, GShift = 8, BShift = 0,
                             Gamma = Some [0, 127, 255, 16]\<rparr>]\<rparr>"
  by (simp add: frameDevice_def copy_defs heap_defs deref_defs)

lemma frameDevice_ready: "ready (fst frameDevice) ((snd frameDevice)\<lparr>leds := frameLeds\<rparr>)"
proof (rule readyI)
  let ?opt = "\<lparr>RenderWaitTime = 0, Frequency = 800000,
           Channels = Some [\<lparr>LedCount = 3, StripeType = 1050624, Brightness = 255, WShift = 24,
                             RShift = 16, GShift = 8, BShift = 0,
                             Gamma = Some [0, 127, 255, 16 :: byte]\<rparr>]\<rparr>"
  show "derefOption (fst frameDevice) (options ((snd frameDevice)\<lparr>leds := frameLeds\<rparr>)) = Some ?opt"
    by (simp add: frameDevice_ws frameDevice_options)
  show "length (leds ((snd frameDevice)\<lparr>leds := frameLeds\<rparr>)) = RpiPwmChannels"
    by (simp add: frameLeds_def RpiPwmChannels_def)
  show "length (elems (Channels ?opt)) \<le> RpiPwmChannels"
    by (simp add: elems_def RpiPwmChannels_def)
  show "\<exists>buf. leds ((snd frameDevice)\<lparr>leds := frameLeds\<rparr>) ! i = Some buf \<and>
          int (length buf) = LedCount (elems (Channels ?opt) ! i)"
    if "i < length (elems (Channels ?opt))" for i
    using that by (simp add: elems_def frameLeds_def)
  show "leds ((snd frameDevice)\<lparr>leds := frameLeds\<rparr>) ! i = None"
    if "length (elems (Channels ?opt)) \<le> i" and "i < RpiPwmChannels" for i
  proof -
    have "i = 1" using that by (simp add: elems_def RpiPwmChannels_def)
    then show ?thesis by (simp add: frameLeds_def)
  qed
qed

text \<open>
  The frame that the default device publishes right after \<^verbatim>\<open>Init\<close>, and the frame of the
  device with shifts and a gamma table after a write of red, green and blue.
\<close>

theorem Render_publishes_channel_0_witness:
  \<open>(\<exists>ws' t'.
      Render (fst (defaultDevice 0)) 5 (readyDevice 0) 0 = Inr (ws', t', None) \<and>
      hub ws' = Some \<lparr>broadcast =
        [''{"option":{"LedCount":16,"StripeType":0,"Brightness":64,"WShift":0,"RShift":0,"GShift":0,"BShift":0,"Gamma":null},"leds":[0,0,0,0,0,0,0,0,0,0,0,0,0,0,0,0]}'']\<rparr>) \<and>
   (\<exists>ws' t'.
      Render (fst frameDevice) 5 ((snd frameDevice)\<lparr>leds := frameLeds\<rparr>) 0 = Inr (ws', t', None) \<and>
      hub ws' = Some \<lparr>broadcast =
        [''{"option":{"LedCount":3,"StripeType":1050624,"Brightness":255,"WShift":24,"RShift":16,"GShift":8,"BShift":0,"Gamma":"AH//EA=="},"leds":[16711680,65280,255]}'']\<rparr>)\<close>
proof -
  let ?c = "\<lparr>LedCount = 16, StripeType = 0, Brightness = 64, WShift = 0,
             RShift = 0, GShift = 0, BShift = 0, Gamma = None :: byte list option\<rparr>"
  let ?opt = "\<lparr>RenderWaitTime = 0, Frequency = 800000, Channels = Some [?c]\<rparr>"
  let ?d = "\<lparr>LedCount = 3, StripeType = 1050624, Brightness = 255, WShift = 24,
             RShift = 16, GShift = 8, BShift = 0, Gamma = Some [0, 127, 255, 16 :: byte]\<rparr>"
  let ?opd = "\<lparr>RenderWaitTime = 0, Frequency = 800000, Channels = Some [?d]\<rparr>"
  let ?fw = "(snd frameDevice)\<lparr>leds := frameLeds\<rparr>"
  note T = Render_publishes_channel_0 [OF readyDevice_ready readyDevice_options, of 0 5 0]
  have "elems (Channels ?opt) \<noteq> [] \<and> hub (readyDevice 0) \<noteq> None"
    by (simp add: elems_def readyDevice_hub)
  then obtain ws' t' where r: "Render (fst (defaultDevice 0)) 5 (readyDevice 0) 0 = Inr (ws', t', None)"
    using T by blast
  then obtain l hb where l: "leds (readyDevice 0) ! 0 = Some l" and hb: "hub (readyDevice 0) = Some hb"
    and h': "hub ws' = Some (hb\<lparr>broadcast := broadcast hb @ [Marshal (elems (Channels ?opt) ! 0) (Some l)]\<rparr>)"
    using T by blast
  have "l = replicate 16 0" using l by (simp add: readyDevice_leds)
  moreover have "hb = \<lparr>broadcast = []\<rparr>" using hb by (simp add: readyDevice_hub)
  ultimately have "hub ws' = Some \<lparr>broadcast = [Marshal ?c (Some (replicate 16 0))]\<rparr>"
    using h' by (simp add: elems_def)
  then have first: \<open>\<exists>ws' t'.
      Render (fst (defaultDevice 0)) 5 (readyDevice 0) 0 = Inr (ws', t', None) \<and>
      hub ws' = Some \<lparr>broadcast =
        [''{"option":{"LedCount":16,"StripeType":0,"Brightness":64,"WShift":0,"RShift":0,"GShift":0,"BShift":0,"Gamma":null},"leds":[0,0,0,0,0,0,0,0,0,0,0,0,0,0,0,0]}'']\<rparr>\<close>
    using r unfolding Marshal_default by blast
  have od: "derefOption (fst frameDevice) (options ?fw) = Some ?opd"
    by (simp add: frameDevice_ws frameDevice_options)
  note F = Render_publishes_channel_0 [OF frameDevice_ready od, of 5 0]
  have "elems (Channels ?opd) \<noteq> [] \<and> hub ?fw \<noteq> None"
    by (simp add: elems_def frameDevice_ws emptyHub_def)
  then obtain ws2 t2 where r2: "Render (fst frameDevice) 5 ?fw 0 = Inr (ws2, t2, None)"
    using F by blast
  then obtain l2 hb2 where l2: "leds ?fw ! 0 = Some l2" and hb2: "hub ?fw = Some hb2"
    and h2: "hub ws2 = Some (hb2\<lparr>broadcast := broadcast hb2
                               @ [Marshal (elems (Channels ?opd) ! 0) (Some l2)]\<rparr>)"
    using F by blast
  have "l2 = [16711680, 65280, 255]" using l2 by (simp add: frameLeds_def)
  moreover have "hb2 = \<lparr>broadcast = []\<rparr>" using hb2 by (simp add: frameDevice_ws emptyHub_def)
  ultimately have "hub ws2 = Some \<lparr>broadcast = [Marshal ?d (Some [16711680, 65280, 255])]\<rparr>"
    using h2 by (simp add: elems_def)
  then have second: \<open>\<exists>ws' t'.
      Render (fst frameDevice) 5 ?fw 0 = Inr (ws', t', None) \<and>
      hub ws' = Some \<lparr>broadcast =
        [''{"option":{"LedCount":3,"StripeType":1050624,"Brightness":255,"WShift":24,"RShift":16,"GShift":8,"BShift":0,"Gamma":"AH//EA=="},"leds":[16711680,65280,255]}'']\<rparr>\<close>
    using r2 unfolding Marshal_frame by blast
  show ?thesis using first second by (rule conjI)
qed

text \<open>
  The default device, with a hub that takes the message after 5 ns.
\<close>

theorem Render_stamps_after_handoff_witness:
  "\<exists>t ws'. Wait (fst (defaultDevice 0)) (readyDevice 0) 0 = Inr (t, None) \<and>
     Render (fst (defaultDevice 0)) 5 (readyDevice 0) 0 = Inr (ws', t + 5, None) \<and>
     lastRender ws' = t + 5 \<and> t < lastRender ws'"
proof -
  obtain t ws' where w: "Wait (fst (defaultDevice 0)) (readyDevice 0) 0 = Inr (t, None)"
    and r: "Render (fst (defaultDevice 0)) 5 (readyDevice 0) 0 = Inr (ws', t + 5, None)"
    using Render_default by blast
  show ?thesis using Render_stamps_after_handoff [OF r] w r by auto
qed

section \<open>Coalescing in \<^verbatim>\<open>sendMessage\<close>\<close>

lemma io_call_ok:
  "\<not> fails c (calls c) \<Longrightarrow> io_call c = (True, c\<lparr>calls := Suc (calls c)\<rparr>)"
  by (simp add: io_call_def)

lemma drain_ok:
  "\<forall>k. calls c \<le> k \<and> k < calls c + n \<longrightarrow> \<not> fails c k \<Longrightarrow> n \<le> length q \<Longrightarrow>
   drain n c w q = Inr (c\<lparr>calls := calls c + n\<rparr>, w @ concat (take n q), drop n q)"
proof (induction n arbitrary: c w q)
  case 0
  then show ?case by simp
next
  case (Suc n)
  then obtain m q' where q: "q = m # q'" by (cases q) auto
  have ok: "\<not> fails c (calls c)" using Suc.prems(1) by simp
  let ?c = "c\<lparr>calls := Suc (calls c)\<rparr>"
  have "drain n ?c (w @ m) q' =
          Inr (?c\<lparr>calls := calls ?c + n\<rparr>, (w @ m) @ concat (take n q'), drop n q')"
    using Suc.prems q by (intro Suc.IH) auto
  then show ?case using q ok by (simp add: io_call_ok recv_def)
qed

text \<open>
  Claim C8. When no call on the connection fails, \<^verbatim>\<open>sendMessage\<close> finalizes exactly one
  message on the connection: the dequeued message followed by every message that was in
  the queue when it was dequeued, oldest first (and then by those that arrived before
  \<^verbatim>\<open>len(c.send)\<close> was read). The queue is left empty and \<^verbatim>\<open>nil\<close> is returned.
\<close>

theorem sendMessage_coalesces:
  assumes "\<forall>k. calls (conn cl) \<le> k \<and> k < calls (conn cl) + length (send cl @ late) + 3
               \<longrightarrow> \<not> fails (conn cl) k"
  shows "sendMessage cl late message =
           (\<lparr>conn = (conn cl)
               \<lparr>calls := calls (conn cl) + length (send cl @ late) + 3,
                messages := messages (conn cl) @ [message @ concat (send cl) @ concat late]\<rparr>,
             send = []\<rparr>, None)"
proof -
  let ?c = "conn cl"
  let ?q = "send cl @ late"
  let ?n = "length ?q"
  let ?c1 = "?c\<lparr>calls := Suc (calls ?c)\<rparr>"
  let ?c2 = "?c1\<lparr>calls := Suc (calls ?c1)\<rparr>"
  let ?c3 = "?c2\<lparr>calls := calls ?c2 + ?n\<rparr>"
  have 1: "io_call ?c = (True, ?c1)" using assms by (intro io_call_ok) simp
  have 2: "io_call ?c1 = (True, ?c2)" using assms by (intro io_call_ok) simp
  have 3: "drain ?n ?c2 message ?q = Inr (?c3, message @ concat (take ?n ?q), drop ?n ?q)"
    using assms by (intro drain_ok) auto
  have 4: "io_call ?c3 = (True, ?c3\<lparr>calls := Suc (calls ?c3)\<rparr>)"
    using assms by (intro io_call_ok) simp
  show ?thesis
    unfolding sendMessage_def using 1 2 3 4 by (simp add: Let_def)
qed

text \<open>
  A pump with two queued messages and one late arrival: one transmission unit of four.
\<close>

theorem sendMessage_coalesces_witness:
  "sendMessage \<lparr>conn = \<lparr>messages = [], calls = 0, fails = (\<lambda>k. False)\<rparr>,
                send = [''{1}'', ''{2}'']\<rparr> [''{3}''] ''{0}'' =
     (\<lparr>conn = \<lparr>messages = [''{0}{1}{2}{3}''], calls = 6, fails = (\<lambda>k. False)\<rparr>, send = []\<rparr>,
      None)"
  using sendMessage_coalesces
    [of "\<lparr>conn = \<lparr>messages = [], calls = 0, fails = (\<lambda>k. False)\<rparr>,
                send = [''{1}'', ''{2}'']\<rparr>" "[''{3}'']" "''{0}''"]
  by simp

section \<open>The device's configuration is its own\<close>












section \<open>The pacing interval\<close>

lemma bitlen_0: "bitlen 0 = 0"
  by (subst bitlen.simps) simp

lemma bitlen_pos: "0 < n \<Longrightarrow> bitlen n = 1 + bitlen (n div 2)"
  by (subst bitlen.simps) simp

lemma bitlen_bounds:
  "0 < n \<Longrightarrow> \<exists>b::nat. bitlen n = int b + 1 \<and> 2 ^ b \<le> n \<and> n < 2 * 2 ^ b"
proof (induction n rule: bitlen.induct)
  case (1 n)
  show ?case
  proof (cases "n div 2 \<le> 0")
    case True
    then have n: "n = 1" using "1.prems" by linarith
    have "bitlen 1 = int 0 + 1" using bitlen_pos [of 1] bitlen_0 by simp
    then show ?thesis unfolding n by (intro exI [of _ 0]) simp
  next
    case False
    let ?m = "n div 2"
    obtain b :: nat where b: "bitlen ?m = int b + 1" "2 ^ b \<le> ?m" "?m < 2 * 2 ^ b"
      using "1.IH" "1.prems" False by auto
    have bn: "bitlen n = int (Suc b) + 1" using bitlen_pos [OF "1.prems"] b(1) by simp
    have "2 * 2 ^ b \<le> 2 * ?m" using b(2) by simp
    also have "\<dots> \<le> n" by simp
    finally have lo: "2 ^ Suc b \<le> n" by simp
    have "n < 2 * (?m + 1)" by simp
    also have "\<dots> \<le> 2 * (2 * 2 ^ b)" using b(3) by simp
    finally have hi: "n < 2 * 2 ^ Suc b" by simp
    show ?thesis using bn lo hi by blast
  qed
qed

lemma round_half_even_error: "\<bar>of_int (round_half_even y) - y\<bar> \<le> 1 / 2"
proof -
  have "of_int \<lfloor>y\<rfloor> \<le> y" "y < of_int \<lfloor>y\<rfloor> + 1" by linarith+
  then show ?thesis
    by (auto simp: round_half_even_def Let_def abs_le_iff)
qed


lemma ilog2_bounds:
  assumes "0 < x"
  shows "2 powi ilog2 x \<le> x \<and> x < 2 powi (ilog2 x + 1)"
proof -
  obtain p q where pq: "quotient_of x = (p, q)" by (cases "quotient_of x")
  have q: "0 < q" using pq by (rule quotient_of_denom_pos)
  have x: "x = of_int p / of_int q" using pq by (rule quotient_of_div)
  have p: "0 < p" using assms q x by (simp add: zero_less_divide_iff)
  obtain a :: nat where a: "bitlen p = int a + 1" "2 ^ a \<le> p" "p < 2 * 2 ^ a"
    using bitlen_bounds [OF p] by blast
  obtain b :: nat where b: "bitlen q = int b + 1" "2 ^ b \<le> q" "q < 2 * 2 ^ b"
    using bitlen_bounds [OF q] by blast
  let ?k = "int a - int b"
  have k: "bitlen p - bitlen q = ?k" using a(1) b(1) by simp
  have P: "(2::rat) ^ a \<le> of_int p" "(of_int p :: rat) < 2 * 2 ^ a"
    using a(2,3) by (metis of_int_le_iff of_int_numeral of_int_power,
        metis of_int_less_iff of_int_mult of_int_numeral of_int_power)
  have Q: "(2::rat) ^ b \<le> of_int q" "(of_int q :: rat) < 2 * 2 ^ b"
    using b(2,3) by (metis of_int_le_iff of_int_numeral of_int_power,
        metis of_int_less_iff of_int_mult of_int_numeral of_int_power)
  have q': "(0::rat) < of_int q" using q by simp
  have pw: "(2::rat) powi (?k + c) = 2 ^ a / 2 ^ b * 2 powi c" for c
    by (simp add: power_int_add power_int_diff)
  have up: "x < 2 powi (?k + 1)"
  proof -
    have "of_int p * (2::rat) ^ b < (2 * 2 ^ a) * of_int q"
      using P Q p by (intro mult_less_le_imp_less) simp_all
    then have "x < 2 * 2 ^ a / 2 ^ b" unfolding x using q'
      by (simp add: field_simps)
    then show ?thesis by (simp add: pw mult.commute)
  qed
  have low: "2 powi (?k - 1) \<le> x"
  proof -
    have "(2::rat) ^ a * of_int q \<le> of_int p * (2 * 2 ^ b)"
      using P Q q' p by (intro mult_mono) simp_all
    then have "2 ^ a / (2 * 2 ^ b) \<le> x" unfolding x using q'
      by (simp add: field_simps)
    moreover have "(2::rat) powi (?k - 1) = 2 ^ a / (2 * 2 ^ b)"
      using pw [of "- 1"] by simp
    ultimately show ?thesis by simp
  qed
  show ?thesis
  proof (cases "2 powi ?k \<le> x")
    case True
    then have "ilog2 x = ?k" by (simp add: ilog2_def pq k)
    then show ?thesis using True up by simp
  next
    case False
    then have "ilog2 x = ?k - 1" by (simp add: ilog2_def pq k)
    then show ?thesis using False low by simp
  qed
qed


lemma pow2_less_D: "(2::rat) powi a < 2 powi b \<Longrightarrow> a < b"
  using power_int_increasing [of b a "2::rat"] by (cases "a < b") auto

lemma pow2_le_less_D: "(2::rat) powi a \<le> x \<Longrightarrow> x < 2 powi b \<Longrightarrow> a < b"
  using pow2_less_D [of a b] by simp

lemma round64_normal:
  assumes lo: "2 powi (- 1022) \<le> x" and hi: "x < 2 powi 1023"
  shows "\<exists>y. round64 x = Finite y \<and> 0 < y \<and>
             x * (1 - unit_roundoff) \<le> y \<and> y \<le> x * (1 + unit_roundoff)"
proof -
  let ?u = unit_roundoff
  have x: "0 < x" using lo zero_less_power_int [of "2::rat" "- 1022"] by linarith
  define k where "k = ilog2 x"
  have B: "2 powi k \<le> x" "x < 2 powi (k + 1)"
    using ilog2_bounds [OF x] by (simp_all add: k_def)
  have k1: "- 1022 \<le> k" using pow2_le_less_D [OF lo B(2)] by simp
  have k2: "k \<le> 1022" using pow2_le_less_D [OF B(1) hi] by simp
  define e where "e = k - 52"
  have e: "max (ilog2 \<bar>x\<bar> - 52) (- 1074) = e" using k1 x by (simp add: e_def k_def)
  define m where "m = round_half_even (x / 2 powi e)"
  define y where "y = of_int m * (2::rat) powi e"
  have pe: "(0::rat) < 2 powi e" by simp
  have "\<bar>of_int m - x / 2 powi e\<bar> \<le> 1 / 2"
    unfolding m_def by (rule round_half_even_error)
  then have "\<bar>of_int m - x / 2 powi e\<bar> * 2 powi e \<le> 1 / 2 * 2 powi e"
    using pe by (intro mult_right_mono) simp_all
  moreover have "\<bar>of_int m - x / 2 powi e\<bar> * 2 powi e = \<bar>y - x\<bar>"
  proof -
    have "\<bar>of_int m - x / 2 powi e\<bar> * 2 powi e = \<bar>(of_int m - x / 2 powi e) * 2 powi e\<bar>"
      using pe by (simp add: abs_mult)
    also have "(of_int m - x / 2 powi e) * 2 powi e = y - x"
      using pe by (simp add: y_def field_simps)
    finally show ?thesis .
  qed
  moreover have "1 / 2 * (2::rat) powi e = 2 powi k * ?u"
  proof -
    have "(2::rat) powi e = 2 powi k * 2 powi (- 52)"
      unfolding e_def by (simp add: power_int_diff power_int_minus_divide)
    then show ?thesis by (simp add: unit_roundoff_def power_int_minus_divide)
  qed
  ultimately have "\<bar>y - x\<bar> \<le> 2 powi k * ?u" by simp
  also have "\<dots> \<le> x * ?u"
    using B(1) by (intro mult_right_mono) (simp_all add: unit_roundoff_def)
  finally have err: "\<bar>y - x\<bar> \<le> x * ?u" .
  have ylo: "x * (1 - ?u) \<le> y" and yhi: "y \<le> x * (1 + ?u)"
    using err by (simp_all add: abs_le_iff algebra_simps)
  have "x * (1 - ?u) > 0" using x by (simp add: unit_roundoff_def)
  then have ypos: "0 < y" using ylo by linarith
  have "x * (1 + ?u) < 2 powi 1023 * 2"
    using hi x by (intro mult_strict_mono) (simp_all add: unit_roundoff_def)
  then have "y < 2 powi 1023 * 2" using yhi by linarith
  then have fin: "\<not> 2 ^ 1024 \<le> y" by simp
  have "round64 x = Finite y"
    using x fin e unfolding round64_def y_def m_def
    by (simp add: Let_def)
  then show ?thesis using ypos ylo yhi by blast
qed


lemma unit_roundoff_bounds: "0 < unit_roundoff" "unit_roundoff < 1"
  "0 < 1 - unit_roundoff" "1 - unit_roundoff \<le> 1"
  by (simp_all add: unit_roundoff_def)

lemma shrink_pos: "0 < (1 - unit_roundoff) ^ k"
  using unit_roundoff_bounds(3) by (rule zero_less_power)

lemma shrink_le_1: "(1 - unit_roundoff) ^ k \<le> 1"
  using unit_roundoff_bounds by (intro power_le_one) simp_all

lemma shrink_6: "1 - 1 / 2 ^ 50 \<le> (1 - unit_roundoff) ^ 6"
  "1 \<le> (1 + 1 / 2 ^ 50) * (1 - unit_roundoff) ^ 6"
  "1 / 2 \<le> (1 - unit_roundoff) ^ 6"
  by (simp_all add: unit_roundoff_def power_divide)


lemma roundingsI:
  assumes "0 \<le> x" and "x * (1 - unit_roundoff) \<le> y" and "y \<le> x * (1 + unit_roundoff)"
  shows "roundings 1 x y"
proof -
  let ?u = unit_roundoff
  have "y * (1 - ?u) \<le> x * (1 + ?u) * (1 - ?u)"
    using assms(3) unit_roundoff_bounds by (intro mult_right_mono) simp_all
  also have "\<dots> = x - x * ?u * ?u" by (simp add: algebra_simps)
  also have "\<dots> \<le> x" using assms(1) unit_roundoff_bounds by simp
  finally show ?thesis using assms(2) by (simp add: roundings_def)
qed

lemma roundings_same: "0 \<le> x \<Longrightarrow> roundings k x x"
  using shrink_le_1 [of k] by (simp add: roundings_def mult_left_le)

lemma roundings_mono:
  assumes "roundings k x y" and "k \<le> k'" and "0 \<le> x" and "0 \<le> y"
  shows "roundings k' x y"
proof -
  have le: "(1 - unit_roundoff) ^ k' \<le> (1 - unit_roundoff) ^ k"
    using assms(2) unit_roundoff_bounds by (intro power_decreasing) simp_all
  have "x * (1 - unit_roundoff) ^ k' \<le> x * (1 - unit_roundoff) ^ k"
    using le assms(3) by (rule mult_left_mono)
  moreover have "y * (1 - unit_roundoff) ^ k' \<le> y * (1 - unit_roundoff) ^ k"
    using le assms(4) by (rule mult_left_mono)
  ultimately show ?thesis using assms(1) by (simp add: roundings_def)
qed

lemma roundings_add:
  "roundings k x1 y1 \<Longrightarrow> roundings k x2 y2 \<Longrightarrow> roundings k (x1 + x2) (y1 + y2)"
  by (simp add: roundings_def distrib_right add_mono)

lemma roundings_trans:
  assumes "roundings a x y" and "roundings b y z"
  shows "roundings (a + b) x z"
proof -
  let ?s = "1 - unit_roundoff"
  have "x * ?s ^ (a + b) = (x * ?s ^ a) * ?s ^ b" by (simp add: power_add)
  also have "\<dots> \<le> y * ?s ^ b"
    using assms(1) shrink_pos [of b] by (intro mult_right_mono) (simp_all add: roundings_def)
  also have "\<dots> \<le> z" using assms(2) by (simp add: roundings_def)
  finally have 1: "x * ?s ^ (a + b) \<le> z" .
  have "z * ?s ^ (a + b) = (z * ?s ^ b) * ?s ^ a" by (simp add: power_add)
  also have "\<dots> \<le> y * ?s ^ a"
    using assms(2) shrink_pos [of a] by (intro mult_right_mono) (simp_all add: roundings_def)
  also have "\<dots> \<le> x" using assms(1) by (simp add: roundings_def)
  finally have 2: "z * ?s ^ (a + b) \<le> x" .
  show ?thesis using 1 2 by (simp add: roundings_def)
qed

lemma roundings_mult:
  assumes "roundings a x1 y1" and "roundings b x2 y2"
    and "0 \<le> x1" "0 \<le> x2" "0 \<le> y1" "0 \<le> y2"
  shows "roundings (a + b) (x1 * x2) (y1 * y2)"
proof -
  let ?s = "1 - unit_roundoff"
  have sa: "0 \<le> ?s ^ a" and sb: "0 \<le> ?s ^ b"
    using shrink_pos [of a] shrink_pos [of b] by simp_all
  have "(x1 * ?s ^ a) * (x2 * ?s ^ b) \<le> y1 * y2"
    using assms sa sb by (intro mult_mono) (simp_all add: roundings_def)
  moreover have "(y1 * ?s ^ a) * (y2 * ?s ^ b) \<le> x1 * x2"
    using assms sa sb by (intro mult_mono) (simp_all add: roundings_def)
  ultimately show ?thesis by (simp add: roundings_def power_add mult_ac)
qed

lemma roundings_divide:
  assumes "roundings a x1 y1" and "roundings b x2 y2"
    and "0 \<le> x1" "0 < x2" "0 \<le> y1" "0 < y2"
  shows "roundings (a + b) (x1 / x2) (y1 / y2)"
proof -
  let ?s = "1 - unit_roundoff"
  have sa: "0 \<le> ?s ^ a" and sb: "0 \<le> ?s ^ b"
    using shrink_pos [of a] shrink_pos [of b] by simp_all
  have "(x1 * ?s ^ a) * (y2 * ?s ^ b) \<le> y1 * x2"
    using assms sa sb by (intro mult_mono) (simp_all add: roundings_def)
  then have 1: "x1 / x2 * ?s ^ (a + b) \<le> y1 / y2"
    using assms(4,6) by (simp add: field_simps power_add)
  have "(y1 * ?s ^ a) * (x2 * ?s ^ b) \<le> x1 * y2"
    using assms sa sb by (intro mult_mono) (simp_all add: roundings_def)
  then have 2: "y1 / y2 * ?s ^ (a + b) \<le> x1 / x2"
    using assms(4,6) by (simp add: field_simps power_add)
  show ?thesis using 1 2 by (simp add: roundings_def)
qed

lemma roundings_twice:
  assumes "roundings k x y" and "k \<le> 6" and "0 \<le> x" and "0 \<le> y"
  shows "y \<le> 2 * x" and "x \<le> 2 * y"
proof -
  have r: "roundings 6 x y" using assms by (rule roundings_mono)
  have "y * (1 / 2) \<le> y * (1 - unit_roundoff) ^ 6"
    using shrink_6(3) assms(4) by (rule mult_left_mono)
  then show "y \<le> 2 * x" using r by (simp add: roundings_def)
  have "x * (1 / 2) \<le> x * (1 - unit_roundoff) ^ 6"
    using shrink_6(3) assms(3) by (rule mult_left_mono)
  then show "x \<le> 2 * y" using r by (simp add: roundings_def)
qed

lemma round64_moderate:
  assumes "1 / 2 ^ 100 \<le> x" and "x \<le> 2 ^ 100"
  shows "\<exists>y. round64 x = Finite y \<and> 0 < y \<and> roundings 1 x y"
proof -
  have "(2::rat) powi (- 1022) \<le> 2 powi (- 100)"
    by (intro power_int_increasing) simp_all
  also have "\<dots> = 1 / 2 ^ 100" by (simp add: power_int_minus_divide)
  finally have lo: "2 powi (- 1022) \<le> x" using assms(1) by simp
  have "(2::rat) ^ 100 = 2 powi 100" by simp
  also have "\<dots> < 2 powi 1023" by (intro power_int_strict_increasing) simp_all
  finally have hi: "x < 2 powi 1023" using assms(2) by simp
  have "0 \<le> x" using assms(1) by (simp add: order_trans [rotated])
  then show ?thesis using round64_normal [OF lo hi] roundingsI [of x] by blast
qed

lemma int64_id: "- (2 ^ 63) \<le> x \<Longrightarrow> x < 2 ^ 63 \<Longrightarrow> int64 x = x"
  by (simp add: int64_def)

lemma float64_of_int_pos:
  assumes "1 \<le> i" and "i < 2 ^ 63"
  shows "\<exists>y. float64_of_int i = Finite y \<and> 0 < y \<and> roundings 1 (of_int i) y"
proof -
  have "(1::rat) / 2 ^ 100 \<le> 1" by simp
  also have "\<dots> \<le> of_int i" using assms(1) by simp
  finally have lo: "(1::rat) / 2 ^ 100 \<le> of_int i" .
  have "(of_int i :: rat) \<le> 2 ^ 63" using assms(2)
    by (metis less_imp_le of_int_le_iff of_int_numeral of_int_power)
  also have "\<dots> \<le> 2 ^ 100" by simp
  finally have hi: "(of_int i :: rat) \<le> 2 ^ 100" .
  show ?thesis unfolding float64_of_int_def by (rule round64_moderate [OF lo hi])
qed

lemma float64_of_int_nonneg:
  assumes "0 \<le> i" and "i < 2 ^ 63"
  shows "\<exists>y. float64_of_int i = Finite y \<and> 0 \<le> y \<and> roundings 1 (of_int i) y"
proof (cases "i = 0")
  case True
  then show ?thesis by (simp add: float64_of_int_def round64_def roundings_same)
next
  case False
  then have "1 \<le> i" using assms(1) by simp
  then show ?thesis using float64_of_int_pos [OF _ assms(2)] by force
qed


lemma roundings_then:
  "roundings a x y \<Longrightarrow> roundings 1 y z \<Longrightarrow> c = Suc a \<Longrightarrow> roundings c x z"
  using roundings_trans [of a x y 1 z] by simp

lemma roundings_times:
  "roundings a x1 y1 \<Longrightarrow> roundings 1 x2 y2 \<Longrightarrow> c = Suc a \<Longrightarrow>
   0 \<le> x1 \<Longrightarrow> 0 \<le> x2 \<Longrightarrow> 0 \<le> y1 \<Longrightarrow> 0 \<le> y2 \<Longrightarrow>
   roundings c (x1 * x2) (y1 * y2)"
  using roundings_mult [of a x1 y1 1 x2 y2] by simp

lemma roundings_over:
  "roundings a x1 y1 \<Longrightarrow> roundings 1 x2 y2 \<Longrightarrow> c = Suc a \<Longrightarrow>
   0 \<le> x1 \<Longrightarrow> 0 < x2 \<Longrightarrow> 0 \<le> y1 \<Longrightarrow> 0 < y2 \<Longrightarrow>
   roundings c (x1 / x2) (y1 / y2)"
  using roundings_divide [of a x1 y1 1 x2 y2] by simp

lemma render_duration_roundings:
  fixes n f :: int
  defines "E \<equiv> (8 * 3 * rat_of_int n + 5 / 100) / rat_of_int f * 1000000000"
  assumes n: "0 \<le> n" "8 * 3 * n < 2 ^ 63" and f: "1 \<le> f" "f < 2 ^ 63" and E: "E < 2 ^ 62"
  shows "\<exists>R. render_duration n f = \<lfloor>R\<rfloor> \<and> 0 < R \<and> roundings 6 E R"
proof -
  define N where "N = 8 * 3 * n"
  have N: "0 \<le> N" "N < 2 ^ 63" using n by (simp_all add: N_def)
  have NR: "(0::rat) \<le> of_int N" "rat_of_int N \<le> 2 ^ 63"
    using N by (simp, metis less_imp_le of_int_le_iff of_int_numeral of_int_power)
  have fR: "(1::rat) \<le> of_int f" "rat_of_int f \<le> 2 ^ 63"
    using f by (simp, metis less_imp_le of_int_le_iff of_int_numeral of_int_power)
  have wrap: "int64 (8 * 3 * n) = N" using N by (simp add: N_def int64_id)
  obtain A0 where A0: "float64_of_int N = Finite A0" "0 \<le> A0" "roundings 1 (of_int N) A0"
    using float64_of_int_nonneg [OF N] by blast
  obtain C where C: "round64 (5 / 100) = Finite C" "0 < C" "roundings 1 (5 / 100) C"
    using round64_moderate [of "5 / 100"] by auto
  let ?x = "rat_of_int N + 5 / 100"
  have X: "roundings 1 ?x (A0 + C)" using A0(3) C(3) by (rule roundings_add)
  have x0: "0 \<le> ?x" "?x \<le> 2 ^ 64" using NR by simp_all
  have X2: "A0 + C \<le> 2 * ?x" "?x \<le> 2 * (A0 + C)"
    using roundings_twice [OF X] x0 A0(2) C(2) by simp_all
  have "1 / 2 ^ 100 \<le> A0 + C" using X2(2) NR(1) by simp
  moreover have "A0 + C \<le> 2 ^ 100" using X2(1) x0(2) by simp
  ultimately obtain A1 where A1: "round64 (A0 + C) = Finite A1" "0 < A1" "roundings 1 (A0 + C) A1"
    using round64_moderate by blast
  have A1r: "roundings 2 ?x A1" using X A1(3) by (rule roundings_then) simp
  have A12: "A1 \<le> 2 * ?x" "?x \<le> 2 * A1"
    using roundings_twice [OF A1r] x0 A1(2) by simp_all
  obtain F where F: "float64_of_int f = Finite F" "0 < F" "roundings 1 (of_int f) F"
    using float64_of_int_pos [OF f] by blast
  have F2: "F \<le> 2 * of_int f" "of_int f \<le> 2 * F"
    using roundings_twice [OF F(3)] fR F(2) by simp_all
  let ?y = "?x / of_int f"
  have Y: "roundings 3 ?y (A1 / F)"
    using A1r F(3) by (rule roundings_over) (use x0 fR A1(2) F(2) in simp_all)
  have y0: "0 \<le> ?y" using x0 fR by simp
  have "A1 / F \<le> 2 ^ 65 / (1 / 2)"
    using A12(1) x0(2) F2(2) fR(1) A1(2) by (intro frac_le) simp_all
  then have Yhi: "A1 / F \<le> 2 ^ 66" by simp
  have "(1 / 40) / 2 ^ 64 \<le> A1 / F"
    using A12(2) NR(1) F2(1) fR(2) F(2) by (intro frac_le) simp_all
  then have Ylo: "1 / 2 ^ 70 \<le> A1 / F" by simp
  have "(1::rat) / 2 ^ 100 \<le> 1 / 2 ^ 70" by simp
  then have "1 / 2 ^ 100 \<le> A1 / F" using Ylo by (rule order_trans)
  moreover have "(2::rat) ^ 66 \<le> 2 ^ 100" by simp
  with Yhi have "A1 / F \<le> 2 ^ 100" by (rule order_trans)
  ultimately obtain Q where Q: "round64 (A1 / F) = Finite Q" "0 < Q" "roundings 1 (A1 / F) Q"
    using round64_moderate by blast
  have Qr: "roundings 4 ?y Q" using Y Q(3) by (rule roundings_then) simp
  have Q2: "Q \<le> 2 * (A1 / F)" "A1 / F \<le> 2 * Q"
    using roundings_twice [OF Q(3)] A1(2) F(2) Q(2) by simp_all
  obtain S where S: "float64_of_int Second = Finite S" "0 < S" "roundings 1 1000000000 S"
    using float64_of_int_pos [of Second] by (auto simp: Second_def)
  have S2: "S \<le> 2 * 1000000000" "1000000000 \<le> 2 * S"
    using roundings_twice [OF S(3)] S(2) by simp_all
  have Ey: "E = ?y * 1000000000" by (simp add: E_def N_def)
  have Z: "roundings 5 E (Q * S)"
    unfolding Ey using Qr S(3) by (rule roundings_times) (use y0 Q(2) S(2) in simp_all)
  have E0: "0 \<le> E" unfolding Ey using y0 by (intro mult_nonneg_nonneg) simp_all
  have "2 * (1 / 2 ^ 71) \<le> A1 / F" using Ylo by simp
  then have "2 * (1 / 2 ^ 71) \<le> 2 * Q" using Q2(2) by (rule order_trans)
  then have Qlo: "1 / 2 ^ 71 \<le> Q" by (simp only: mult_le_cancel_left_pos zero_less_numeral)
  have "2 * (A1 / F) \<le> 2 * 2 ^ 66" using Yhi by (simp only: mult_le_cancel_left_pos zero_less_numeral)
  with Q2(1) have "Q \<le> 2 * 2 ^ 66" by (rule order_trans)
  then have Qhi: "Q \<le> 2 ^ 67" by simp
  have Slo: "1 \<le> S" using S2(2) by simp
  have Shi: "S \<le> 2 ^ 31" using S2(1) by simp
  have "Q * S \<le> 2 ^ 67 * 2 ^ 31"
    using Qhi Shi Q(2) S(2) by (intro mult_mono) simp_all
  moreover have "(2::rat) ^ 67 * 2 ^ 31 \<le> 2 ^ 100" by simp
  ultimately have Zhi: "Q * S \<le> 2 ^ 100" by (rule order_trans)
  have "(1 / 2 ^ 71) * 1 \<le> Q * S"
    using Qlo Slo Q(2) S(2) by (intro mult_mono) simp_all
  moreover have "(1::rat) / 2 ^ 100 \<le> (1 / 2 ^ 71) * 1" by simp
  ultimately have Zlo: "1 / 2 ^ 100 \<le> Q * S" by (rule order_trans [rotated])
  obtain R where R: "round64 (Q * S) = Finite R" "0 < R" "roundings 1 (Q * S) R"
    using round64_moderate [OF Zlo Zhi] by blast
  have Rr: "roundings 6 E R" using Z R(3) by (rule roundings_then) simp
  have "R \<le> 2 * E" using roundings_twice(1) [OF Rr] E0 R(2) by simp
  then have "R < 2 ^ 63" using E by simp
  then have fl: "\<lfloor>R\<rfloor> < 2 ^ 63"
    by (metis floor_less_iff of_int_numeral of_int_power)
  have fl0: "0 \<le> \<lfloor>R\<rfloor>" using R(2) by simp
  have "render_duration n f = int64_of_float64 (Finite R)"
    unfolding render_duration_def render_dt_def wrap A0(1) C(1) F(1) S(1)
    using A1(1) Q(1) R(1) F(2) by simp
  also have "\<dots> = \<lfloor>R\<rfloor>" using fl fl0 R(2) by (simp add: int64_of_float64_def Let_def)
  finally show ?thesis using R(2) Rr by blast
qed


lemma render_duration_bounds:
  fixes n f :: int
  defines "E \<equiv> (8 * 3 * rat_of_int n + 5 / 100) / rat_of_int f * 1000000000"
  assumes "0 \<le> n" "8 * 3 * n < 2 ^ 63" "1 \<le> f" "f < 2 ^ 63" "E < 2 ^ 62"
  shows "E * (1 - 1 / 2 ^ 50) - 1 < of_int (render_duration n f)"
    and "of_int (render_duration n f) \<le> E * (1 + 1 / 2 ^ 50)"
proof -
  let ?s = "(1 - unit_roundoff) ^ 6"
  obtain R where d: "render_duration n f = \<lfloor>R\<rfloor>" and R: "0 < R" and r: "roundings 6 E R"
    using render_duration_roundings [of n f] assms(2-6) unfolding E_def by blast
  have lo: "E * ?s \<le> R" and hi: "R * ?s \<le> E" using r by (simp_all add: roundings_def)
  have E0: "0 \<le> E"
  proof -
    have "0 \<le> R * ?s" using R shrink_pos [of 6] by simp
    then show ?thesis using hi by linarith
  qed
  have "E * (1 - 1 / 2 ^ 50) \<le> E * ?s" using shrink_6(1) E0 by (rule mult_left_mono)
  then have "E * (1 - 1 / 2 ^ 50) \<le> R" using lo by linarith
  moreover have "R - 1 < of_int \<lfloor>R\<rfloor>" by linarith
  ultimately show "E * (1 - 1 / 2 ^ 50) - 1 < of_int (render_duration n f)"
    unfolding d by linarith
  have "R * 1 \<le> R * ((1 + 1 / 2 ^ 50) * ?s)"
    using shrink_6(2) R by (intro mult_left_mono) simp_all
  also have "\<dots> = (R * ?s) * (1 + 1 / 2 ^ 50)" by (simp only: mult_ac)
  also have "\<dots> \<le> E * (1 + 1 / 2 ^ 50)" using hi by (intro mult_right_mono) simp_all
  finally have "R \<le> E * (1 + 1 / 2 ^ 50)" by simp
  moreover have "of_int \<lfloor>R\<rfloor> \<le> R" by linarith
  ultimately show "of_int (render_duration n f) \<le> E * (1 + 1 / 2 ^ 50)"
    unfolding d by linarith
qed

lemma render_duration_default: "render_duration 16 800000 = 480062"
proof -
  let ?E = "(8 * 3 * rat_of_int 16 + 5 / 100) / rat_of_int 800000 * 1000000000"
  have E: "?E = 960125 / 2" by simp
  have "?E * (1 - 1 / 2 ^ 50) - 1 < of_int (render_duration 16 800000)"
    by (rule render_duration_bounds) simp_all
  then have "(480061 :: rat) < of_int (render_duration 16 800000)"
    unfolding E by simp
  then have lo: "480061 < render_duration 16 800000" by linarith
  have "of_int (render_duration 16 800000) \<le> ?E * (1 + 1 / 2 ^ 50)"
    by (rule render_duration_bounds) simp_all
  then have "rat_of_int (render_duration 16 800000) < 480063"
    unfolding E by simp
  then have hi: "render_duration 16 800000 < 480063" by linarith
  show ?thesis using lo hi by linarith
qed

lemma Sleep_Until:
  "Sleep (Until t now) now = (if t - now \<le> 0 then now else now + min (t - now) (2 ^ 63 - 1))"
  by (simp add: Sleep_def Until_def min_def max_def)

text \<open>
  Claim C5, as amended. Let the options of the device be not \<^verbatim>\<open>nil\<close> and have a channel
  0, let \<open>n\<close> be channel 0's \<^verbatim>\<open>LedCount\<close> and \<open>f\<close> the frequency, with \<open>0 \<le> n\<close> and
  \<open>8 * 3 * n < 2\<^sup>6\<^sup>3\<close> (the \<^verbatim>\<open>int\<close> product of the code does not wrap) and \<open>1 \<le> f < 2\<^sup>6\<^sup>3\<close>,
  and let \<open>E = (8 * 3 * n + 0.05) / f * 10\<^sup>9\<close>, the interval of the formula in nanoseconds,
  be below \<open>2\<^sup>6\<^sup>2\<close>. The interval that \<^verbatim>\<open>Wait\<close> enforces is the \<^verbatim>\<open>Duration\<close> \<open>d\<close> that the
  \<^verbatim>\<open>float64\<close> computation gives: a whole number of nanoseconds, the value of the formula
  rounded five times in \<^verbatim>\<open>float64\<close> and then truncated, so
  \<open>E * (1 - 2\<^sup>-\<^sup>5\<^sup>0) - 1 < d \<le> E * (1 + 2\<^sup>-\<^sup>5\<^sup>0)\<close>. \<^verbatim>\<open>Wait\<close> returns at once when
  \<open>lastRender + d - now\<close> is not positive and otherwise asks \<^verbatim>\<open>Sleep\<close> for exactly that
  remainder (at most the largest \<^verbatim>\<open>Duration\<close>, \<open>2\<^sup>6\<^sup>3 - 1\<close> ns), returning \<^verbatim>\<open>nil\<close>.
\<close>

theorem Wait_pacing_interval:
  fixes E :: rat
  assumes "derefOption h (options ws) = Some opt" and "elems (Channels opt) \<noteq> []"
    and "n = LedCount (elems (Channels opt) ! 0)" and "f = Frequency opt"
    and "0 \<le> n" and "8 * 3 * n < 2 ^ 63" and "1 \<le> f" and "f < 2 ^ 63"
    and "E = (8 * 3 * of_int n + 5 / 100) / of_int f * 1000000000" and "E < 2 ^ 62"
  shows "\<exists>d. render_duration n f = d \<and>
             E * (1 - 1 / 2 ^ 50) - 1 < of_int d \<and> of_int d \<le> E * (1 + 1 / 2 ^ 50) \<and>
             Wait h ws now =
               Inr (if lastRender ws + d - now \<le> 0 then now
                    else now + min (lastRender ws + d - now) (2 ^ 63 - 1), None)"
proof -
  have "E * (1 - 1 / 2 ^ 50) - 1 < of_int (render_duration n f)"
    unfolding assms(9) using assms(5-8,10) unfolding assms(9) by (rule render_duration_bounds)
  moreover have "of_int (render_duration n f) \<le> E * (1 + 1 / 2 ^ 50)"
    unfolding assms(9) using assms(5-8,10) unfolding assms(9) by (rule render_duration_bounds)
  moreover have "Wait h ws now =
      Inr (if lastRender ws + render_duration n f - now \<le> 0 then now
           else now + min (lastRender ws + render_duration n f - now) (2 ^ 63 - 1), None)"
    using Wait_ok [OF assms(1,2), of now] by (simp add: Sleep_Until assms(3,4))
  ultimately show ?thesis by blast
qed

text \<open>
  Claim C5 as stated fails for 16 LEDs at 800000 Hz: the formula gives 480062.5 ns, and
  the interval of the code is the \<^verbatim>\<open>Duration\<close> 480062 ns.
\<close>

theorem Wait_pacing_interval_counterexample:
  "render_duration 16 800000 = 480062 \<and>
   ((8 * 3 * 16 + 5 / 100) / 800000 * 1000000000 :: rat) = 480062 + 1 / 2"
  using render_duration_default by simp

text \<open>
  The default device, never rendered (\<^verbatim>\<open>lastRender\<close> is the zero time): \<^verbatim>\<open>Wait\<close> at clock
  reading 100 returns at 480062, and at 480062 or later it returns at once.
\<close>

theorem Wait_pacing_interval_witness:
  "render_duration 16 800000 = 480062 \<and>
   Wait (fst (defaultDevice 0)) (readyDevice 0) 100 = Inr (480062, None) \<and>
   Wait (fst (defaultDevice 0)) (readyDevice 0) 480062 = Inr (480062, None) \<and>
   Wait (fst (defaultDevice 0)) (readyDevice 0) 500000 = Inr (500000, None)"
proof -
  let ?opt = "\<lparr>RenderWaitTime = 0, Frequency = 800000,
           Channels = Some [\<lparr>LedCount = 16, StripeType = 0, Brightness = 64, WShift = 0,
                             RShift = 0, GShift = 0, BShift = 0, Gamma = None :: byte list option\<rparr>]\<rparr>"
  have W: "\<exists>d. render_duration 16 800000 = d \<and>
             960125 / 2 * (1 - 1 / 2 ^ 50) - 1 < rat_of_int d \<and>
             rat_of_int d \<le> 960125 / 2 * (1 + 1 / 2 ^ 50) \<and>
             Wait (fst (defaultDevice 0)) (readyDevice 0) now =
               Inr (if lastRender (readyDevice 0) + d - now \<le> 0 then now
                    else now + min (lastRender (readyDevice 0) + d - now) (2 ^ 63 - 1), None)"
    for now
    using Wait_pacing_interval [OF readyDevice_options [of 0],
        where n = 16 and f = 800000 and E = "960125 / 2" and now = now]
    by (simp add: elems_def)
  obtain d where d: "render_duration 16 800000 = d"
    "960125 / 2 * (1 - 1 / 2 ^ 50) - 1 < rat_of_int d"
    "rat_of_int d \<le> 960125 / 2 * (1 + 1 / 2 ^ 50)"
    using W [of 0] by blast
  have "(480061 :: rat) < of_int d" using d(2) by simp
  moreover have "rat_of_int d < 480063" using d(3) by simp
  ultimately have "d = 480062" by linarith
  then have D: "render_duration 16 800000 = 480062" using d(1) by simp
  have L: "lastRender (readyDevice 0) = 0" by (simp add: readyDevice_def defaultDevice_ws)
  show ?thesis using W [of 100] W [of 480062] W [of 500000] D L by simp
qed

section \<open>\<^verbatim>\<open>Render\<close> keeps the shape of the device\<close>

lemma ready_leds_options:
  assumes "ready h ws" and "leds ws' = leds ws" and "options ws' = options ws"
  shows "ready h ws'"
  using assms(1) unfolding ready_def assms(2,3) .

lemma Render_ready:
  assumes "ready h ws" and "Render h blocked ws now = Inr (ws', t', e)"
  shows "ready h ws'"
proof -
  have "leds ws' = leds ws \<and> options ws' = options ws"
    using Render_returns [OF assms(2)] by auto
  then show ?thesis using assms(1) by (simp add: ready_leds_options)
qed

end
